theory Spec2Isabelle
  imports Complex_Main
begin

section \<open>Data model\<close>

text \<open>
  The embedding follows the Mongoose schemas of \<^verbatim>\<open>models/IntrusionAlert.js\<close> and
  \<^verbatim>\<open>models/Log.js\<close>. JavaScript numbers that carry a confidence or a risk score are
  modelled as reals (no rounding takes place), array lengths and counters as naturals,
  \<^verbatim>\<open>Date\<close> values as integers (milliseconds since the epoch), ObjectIds as naturals, and an
  optional field as an \<open>option\<close>. Strings are lists of 8-bit characters. The free-text
  \<^verbatim>\<open>description\<close> field, which the services fill with formatted numbers, is left out,
  and so are the schema fields that none of the modelled functions reads or writes
  (\<^verbatim>\<open>alertId\<close>, \<^verbatim>\<open>targetIp\<close>, \<^verbatim>\<open>tags\<close>, \<^verbatim>\<open>evidence\<close>, \<^verbatim>\<open>mitigationSteps\<close>,
  \<^verbatim>\<open>falsePositiveReason\<close>).
\<close>

datatype severity = Low | Medium | High | Critical

datatype status = Active | Investigating | Resolved | FalsePositive

datatype category = Security | System | Application | Network | Database

record timelineEntry =
  timestamp :: int
  event :: string
  details :: string
  user :: "nat option"

record notificationRecord =
  nMethod :: string
  nRecipient :: string
  nSentAt :: int
  nStatus :: string

record alert =
  alertOid :: nat
  title :: string
  severity :: severity
  atype :: string
  status :: status
  sourceIp :: "string option"
  affectedAssets :: "string list"
  attackVector :: "string option"
  confidence :: real
  riskScore :: real
  relatedLogs :: "nat list"
  correlationId :: "string option"
  detectionMethod :: string
  assignedTo :: "nat option"
  timeline :: "timelineEntry list"
  notifications :: "notificationRecord list"
  createdAt :: int
  resolvedAt :: "int option"
  resolvedBy :: "nat option"
  resolutionNotes :: "string option"

section \<open>The pre-save hook and the instance methods of IntrusionAlert\<close>

text \<open>
  \<^verbatim>\<open>severityWeight[this.severity] || 5\<close>: a table lookup with a fallback taken when the
  looked-up value is falsy.
\<close>

fun severityWeight :: "severity \<Rightarrow> real" where
  "severityWeight Low = 2"
| "severityWeight Medium = 5"
| "severityWeight High = 8"
| "severityWeight Critical = 10"

definition preSave :: "alert \<Rightarrow> alert" where
  "preSave a =
     (let w = severityWeight (severity a);
          baseScore = (if w = 0 then 5 else w)
      in a\<lparr>riskScore := min 10 (baseScore * (confidence a / 100))\<rparr>)"

text \<open>\<^verbatim>\<open>save()\<close> runs the pre-save hook and then writes the document.\<close>

definition save :: "alert \<Rightarrow> alert" where
  "save a = preSave a"

fun statusName :: "status \<Rightarrow> string" where
  "statusName Active = ''active''"
| "statusName Investigating = ''investigating''"
| "statusName Resolved = ''resolved''"
| "statusName FalsePositive = ''false_positive''"

text \<open>
  \<^verbatim>\<open>updateStatus(newStatus, userId, notes)\<close>; \<open>now\<close> is the value of \<^verbatim>\<open>new Date()\<close>. A
  missing or empty \<^verbatim>\<open>notes\<close> argument is falsy.
\<close>

definition truthyStr :: "string option \<Rightarrow> bool" where
  "truthyStr s = (case s of None \<Rightarrow> False | Some v \<Rightarrow> v \<noteq> [])"

definition updateStatus :: "int \<Rightarrow> status \<Rightarrow> nat \<Rightarrow> string option \<Rightarrow> alert \<Rightarrow> alert" where
  "updateStatus now newStatus userId notes a =
     (let oldStatus = status a;
          a1 = a\<lparr>status := newStatus\<rparr>;
          a2 = a1\<lparr>timeline := timeline a1 @
                 [\<lparr>timestamp = now, event = ''Status Changed'',
                   details = ''Status changed from '' @ statusName oldStatus @ '' to '' @
                     statusName newStatus @ (if truthyStr notes then '': '' @ the notes else []),
                   user = Some userId\<rparr>]\<rparr>;
          a3 = (if newStatus = Resolved
                then (let r = a2\<lparr>resolvedAt := Some now, resolvedBy := Some userId\<rparr>
                      in if truthyStr notes then r\<lparr>resolutionNotes := notes\<rparr> else r)
                else a2)
      in save a3)"

section \<open>Strings and insertion-ordered maps\<close>

text \<open>
  \<^verbatim>\<open>toLowerCase\<close> on the ASCII letters and \<^verbatim>\<open>String.prototype.includes\<close>.
\<close>

definition toLowerChar :: "char \<Rightarrow> char" where
  "toLowerChar c =
     (case map_of (zip ''ABCDEFGHIJKLMNOPQRSTUVWXYZ'' ''abcdefghijklmnopqrstuvwxyz'') c of
        None \<Rightarrow> c | Some d \<Rightarrow> d)"

definition toLowerCase :: "string \<Rightarrow> string" where
  "toLowerCase s = map toLowerChar s"

primrec strIncludes :: "string \<Rightarrow> string \<Rightarrow> bool" where
  "strIncludes [] sub = (sub = [])"
| "strIncludes (c # cs) sub = (take (length sub) (c # cs) = sub \<or> strIncludes cs sub)"

text \<open>
  A JavaScript \<^verbatim>\<open>Map\<close> iterates in insertion order and \<^verbatim>\<open>set\<close> on a present key keeps
  the key's position: an association list with distinct keys.
\<close>

definition mapHas :: "('k \<times> 'v) list \<Rightarrow> 'k \<Rightarrow> bool" where
  "mapHas m k = (map_of m k \<noteq> None)"

definition mapGet :: "('k \<times> 'v) list \<Rightarrow> 'k \<Rightarrow> 'v option" where
  "mapGet m k = map_of m k"

primrec mapSet :: "'k \<Rightarrow> 'v \<Rightarrow> ('k \<times> 'v) list \<Rightarrow> ('k \<times> 'v) list" where
  "mapSet k v [] = [(k, v)]"
| "mapSet k v (p # ps) = (if fst p = k then (k, v) # ps else p # mapSet k v ps)"

section \<open>Intrusion detector: rules\<close>

record log =
  lId :: nat
  lTimestamp :: int
  lSource :: string
  lMessage :: string
  lCategory :: category
  lSourceIp :: "string option"
  lProcessed :: bool

record thresholds =
  bruteForceAttempts :: nat
  timeWindow :: int
  anomalyThreshold :: real
  dataTransferThreshold :: nat

definition alertThresholds :: thresholds where
  "alertThresholds =
     \<lparr>bruteForceAttempts = 5, timeWindow = 300000, anomalyThreshold = 3,
      dataTransferThreshold = 100 * 1024 * 1024\<rparr>"

text \<open>What a rule's \<^verbatim>\<open>condition\<close> returns for each finding.\<close>

record detection =
  dTitle :: string
  dSourceIp :: "string option"
  dConfidence :: real
  dRelatedLogs :: "nat list option"
  dAttackVector :: string
  dAffectedAssets :: "string list"

text \<open>
  \<^verbatim>\<open>detectBruteForce\<close>: the first \<^verbatim>\<open>forEach\<close> groups the failed logins by source IP, the
  second pushes one detection for every group that reaches the threshold.
\<close>

definition isFailedLogin :: "log \<Rightarrow> bool" where
  "isFailedLogin l =
     (lCategory l = Security \<and> strIncludes (toLowerCase (lMessage l)) ''failed'' \<and>
      truthyStr (lSourceIp l))"

definition groupFailedAttempt :: "log \<Rightarrow> (string \<times> log list) list \<Rightarrow> (string \<times> log list) list" where
  "groupFailedAttempt l m =
     (if isFailedLogin l
      then (let ip = the (lSourceIp l);
                m1 = (if \<not> mapHas m ip then mapSet ip [] m else m)
            in case mapGet m1 ip of
                 Some attempts \<Rightarrow> mapSet ip (attempts @ [l]) m1
               | None \<Rightarrow> m1)
      else m)"

definition bruteForceDetection :: "string \<Rightarrow> log list \<Rightarrow> detection" where
  "bruteForceDetection ip attempts =
     \<lparr>dTitle = ''Brute Force Attack Detected from '' @ ip,
      dSourceIp = Some ip,
      dConfidence = min 95 (60 + real (length attempts) * 5),
      dRelatedLogs = Some (map lId attempts),
      dAttackVector = ''Authentication brute force'',
      dAffectedAssets = [''Authentication System'']\<rparr>"

definition detectBruteForce :: "thresholds \<Rightarrow> log list \<Rightarrow> detection list" where
  "detectBruteForce th logs =
     (let failedAttempts = fold groupFailedAttempt logs []
      in concat (map (\<lambda>(ip, attempts).
                   if length attempts \<ge> bruteForceAttempts th
                   then [bruteForceDetection ip attempts] else [])
                 failedAttempts))"

section \<open>Intrusion detector: alert materialisation and the detection cycle\<close>

text \<open>
  The argument of \<^verbatim>\<open>createAlert\<close>: a detection spread into an object together with the
  rule's type and severity and the detection method.
\<close>

record alertData =
  adTitle :: string
  adSourceIp :: "string option"
  adConfidence :: real
  adRelatedLogs :: "nat list option"
  adAttackVector :: string
  adAffectedAssets :: "string list"
  adType :: string
  adSeverity :: severity
  adDetectionMethod :: string

text \<open>The lines written to the logger, by call site.\<close>

datatype logLine =
    CycleStarted
  | CycleCompleted
  | RuleError string
  | UpdatedExistingAlert nat
  | NewAlertCreated nat
  | ImmediateAttention nat
  | CorrelationAlreadyExists string
  | NewCorrelatedAlertCreated nat
  | ErrorCreatingCorrelatedAlert

text \<open>
  The state the detector works on: the two collections, the next ObjectId the store hands
  out, and the logger's output. The detector's repository calls are taken to succeed (the
  alerts its rules build carry a type and a detection method of the schema's enumerations),
  and one cycle reads the clock as a single instant \<open>now\<close>.
\<close>

record detectorState =
  logCollection :: "log list"
  alertCollection :: "alert list"
  nextOid :: nat
  logged :: "logLine list"

text \<open>
  \<^verbatim>\<open>IntrusionAlert.findOne(filter)\<close>: the first document that satisfies the filter; its
  position in the collection stands for its identity when it is saved back.
\<close>

primrec findOneIndex :: "('a \<Rightarrow> bool) \<Rightarrow> 'a list \<Rightarrow> nat option" where
  "findOneIndex P [] = None"
| "findOneIndex P (x # xs) = (if P x then Some 0 else map_option Suc (findOneIndex P xs))"

definition isSimilarAlert :: "thresholds \<Rightarrow> int \<Rightarrow> alertData \<Rightarrow> alert \<Rightarrow> bool" where
  "isSimilarAlert th now ad a =
     (atype a = adType ad \<and> sourceIp a = adSourceIp ad \<and>
      (status a = Active \<or> status a = Investigating) \<and>
      createdAt a \<ge> now - timeWindow th)"

text \<open>\<^verbatim>\<open>new IntrusionAlert(alertData)\<close> with the schema defaults.\<close>

definition newIntrusionAlert :: "nat \<Rightarrow> int \<Rightarrow> alertData \<Rightarrow> alert" where
  "newIntrusionAlert oid now ad =
     \<lparr>alertOid = oid, title = adTitle ad, severity = adSeverity ad, atype = adType ad,
      status = Active, sourceIp = adSourceIp ad, affectedAssets = adAffectedAssets ad,
      attackVector = Some (adAttackVector ad), confidence = adConfidence ad, riskScore = 5,
      relatedLogs = (case adRelatedLogs ad of None \<Rightarrow> [] | Some ids \<Rightarrow> ids),
      correlationId = None, detectionMethod = adDetectionMethod ad, assignedTo = None,
      timeline = [], notifications = [], createdAt = now, resolvedAt = None,
      resolvedBy = None, resolutionNotes = None\<rparr>"

definition triggerImmediateNotification :: "alert \<Rightarrow> detectorState \<Rightarrow> detectorState" where
  "triggerImmediateNotification a st = st\<lparr>logged := logged st @ [ImmediateAttention (alertOid a)]\<rparr>"

definition createAlert :: "thresholds \<Rightarrow> int \<Rightarrow> alertData \<Rightarrow> detectorState \<Rightarrow> detectorState \<times> alert" where
  "createAlert th now ad st =
     (case findOneIndex (isSimilarAlert th now ad) (alertCollection st) of
        Some i \<Rightarrow>
          (let existingAlert = alertCollection st ! i;
               e1 = existingAlert\<lparr>confidence := max (confidence existingAlert) (adConfidence ad)\<rparr>;
               e2 = (case adRelatedLogs ad of
                       Some ids \<Rightarrow> e1\<lparr>relatedLogs := relatedLogs e1 @ ids\<rparr>
                     | None \<Rightarrow> e1);
               e3 = save e2
           in (st\<lparr>alertCollection := (alertCollection st)[i := e3],
                   logged := logged st @ [UpdatedExistingAlert (alertOid e3)]\<rparr>, e3))
      | None \<Rightarrow>
          (let a = save (newIntrusionAlert (nextOid st) now ad);
               st1 = st\<lparr>alertCollection := alertCollection st @ [a], nextOid := Suc (nextOid st),
                        logged := logged st @ [NewAlertCreated (alertOid a)]\<rparr>;
               st2 = (if severity a = High \<or> severity a = Critical
                      then triggerImmediateNotification a st1 else st1)
           in (st2, a)))"

text \<open>
  A rule of the table. Its \<^verbatim>\<open>condition\<close> either returns its detections or throws.
\<close>

datatype ruleError = RuleEvaluationError string

record detectionRule =
  name :: string
  rtype :: string
  condition :: "log list \<Rightarrow> ruleError + detection list"
  rseverity :: severity
  enabled :: bool

definition toAlertData :: "detectionRule \<Rightarrow> detection \<Rightarrow> alertData" where
  "toAlertData rule d =
     \<lparr>adTitle = dTitle d, adSourceIp = dSourceIp d, adConfidence = dConfidence d,
      adRelatedLogs = dRelatedLogs d, adAttackVector = dAttackVector d,
      adAffectedAssets = dAffectedAssets d, adType = rtype rule, adSeverity = rseverity rule,
      adDetectionMethod = ''signature''\<rparr>"

definition executeDetectionRule ::
    "thresholds \<Rightarrow> int \<Rightarrow> detectionRule \<Rightarrow> log list \<Rightarrow> detectorState \<Rightarrow> detectorState" where
  "executeDetectionRule th now rule ls st =
     (case condition rule ls of
        Inl error \<Rightarrow> st\<lparr>logged := logged st @ [RuleError (name rule)]\<rparr>
      | Inr detections \<Rightarrow>
          fold (\<lambda>d s. fst (createAlert th now (toAlertData rule d) s)) detections st)"

text \<open>
  \<^verbatim>\<open>Log.find({timestamp: {$gte: now - timeWindow}, processed: false}).sort({timestamp: -1})\<close>.
  The order among equal timestamps, which the store leaves open, is the stored order here.
\<close>

definition fetchRecentLogs :: "thresholds \<Rightarrow> int \<Rightarrow> detectorState \<Rightarrow> log list" where
  "fetchRecentLogs th now st =
     sort_key (\<lambda>l. - lTimestamp l)
       (filter (\<lambda>l. lTimestamp l \<ge> now - timeWindow th \<and> \<not> lProcessed l) (logCollection st))"

definition runRules ::
    "thresholds \<Rightarrow> int \<Rightarrow> detectionRule list \<Rightarrow> log list \<Rightarrow> detectorState \<Rightarrow> detectorState" where
  "runRules th now rules recentLogs st =
     fold (\<lambda>rule s. if enabled rule then executeDetectionRule th now rule recentLogs s else s)
       rules st"

definition markProcessed :: "nat list \<Rightarrow> detectorState \<Rightarrow> detectorState" where
  "markProcessed logIds st =
     (if length logIds > 0
      then st\<lparr>logCollection := map (\<lambda>l. if lId l \<in> set logIds then l\<lparr>lProcessed := True\<rparr> else l) (logCollection st)\<rparr>
      else st)"

definition runDetectionCycle ::
    "thresholds \<Rightarrow> int \<Rightarrow> detectionRule list \<Rightarrow> detectorState \<Rightarrow> detectorState" where
  "runDetectionCycle th now rules st =
     (let st0 = st\<lparr>logged := logged st @ [CycleStarted]\<rparr>;
          recentLogs = fetchRecentLogs th now st0;
          st1 = runRules th now rules recentLogs st0;
          logIds = map lId recentLogs;
          st2 = markProcessed logIds st1
      in st2\<lparr>logged := logged st2 @ [CycleCompleted]\<rparr>)"

text \<open>
  The rule table of the constructor. The bodies of four rules are parameters, and nothing
  below depends on what they return: the SQL-injection and privilege-escalation rules are
  regular-expression scans, the data-exfiltration rule parses sizes with \<^verbatim>\<open>parseInt\<close>, and
  the anomalous-volume rule decides by a mean and a standard deviation computed in IEEE
  double arithmetic, which an embedding over exact numbers does not reproduce.
\<close>

definition detectionRules ::
    "thresholds \<Rightarrow> (log list \<Rightarrow> ruleError + detection list) \<Rightarrow>
     (log list \<Rightarrow> ruleError + detection list) \<Rightarrow>
     (log list \<Rightarrow> ruleError + detection list) \<Rightarrow>
     (log list \<Rightarrow> ruleError + detection list) \<Rightarrow> detectionRule list" where
  "detectionRules th detectSQLInjection detectAnomalousTraffic detectPrivilegeEscalation
       detectDataExfiltration =
     [\<lparr>name = ''Brute Force Detection'', rtype = ''brute_force'',
       condition = (\<lambda>ls. Inr (detectBruteForce th ls)), rseverity = High, enabled = True\<rparr>,
      \<lparr>name = ''SQL Injection Detection'', rtype = ''sql_injection'',
       condition = detectSQLInjection, rseverity = Critical, enabled = True\<rparr>,
      \<lparr>name = ''Unusual Traffic Pattern'', rtype = ''anomaly'',
       condition = detectAnomalousTraffic, rseverity = Medium, enabled = True\<rparr>,
      \<lparr>name = ''Privilege Escalation'', rtype = ''privilege_escalation'',
       condition = detectPrivilegeEscalation, rseverity = High, enabled = True\<rparr>,
      \<lparr>name = ''Data Exfiltration'', rtype = ''data_exfiltration'',
       condition = detectDataExfiltration, rseverity = Critical, enabled = True\<rparr>]"

section \<open>Correlation engine: severity of a composite alert\<close>

text \<open>
  The fields of a correlation candidate that \<^verbatim>\<open>createCorrelatedAlert\<close> and
  \<^verbatim>\<open>calculateCorrelationSeverity\<close> read. \<^verbatim>\<open>confidence || 50\<close> replaces a missing confidence
  and also the falsy number 0; \<^verbatim>\<open>affectedAssets || []\<close> replaces a missing array.
\<close>

record correlationData =
  cTitle :: string
  cSourceIp :: "string option"
  cConfidence :: "real option"
  cRelatedLogs :: "nat list"
  cAffectedAssets :: "string list option"
  cAttackVector :: string
  cCorrelationId :: string

definition calculateCorrelationSeverity :: "correlationData \<Rightarrow> severity" where
  "calculateCorrelationSeverity c =
     (let confidence = (case cConfidence c of None \<Rightarrow> 50
                         | Some v \<Rightarrow> if v = 0 then 50 else v);
          assetCount = length (case cAffectedAssets c of None \<Rightarrow> [] | Some xs \<Rightarrow> xs)
      in if confidence \<ge> 80 \<and> assetCount \<ge> 3 then Critical
         else if confidence \<ge> 70 \<or> assetCount \<ge> 2 then High
         else if confidence \<ge> 60 then Medium
         else Low)"

text \<open>
  \<^verbatim>\<open>createCorrelatedAlert(correlationData, rule)\<close> reads only the rule's \<^verbatim>\<open>type\<close>. The
  alert is built from the candidate's fields; a candidate without a confidence gets the
  schema default 50, and \<^verbatim>\<open>relatedAlerts\<close>, which the schema does not declare, is dropped.
\<close>

record correlationRule =
  crName :: string
  crType :: string
  crTimeWindow :: int
  crEnabled :: bool

definition isSameCorrelation :: "correlationData \<Rightarrow> alert \<Rightarrow> bool" where
  "isSameCorrelation c a =
     (correlationId a = Some (cCorrelationId c) \<and>
      (status a = Active \<or> status a = Investigating))"

definition newCorrelatedAlert :: "nat \<Rightarrow> int \<Rightarrow> correlationData \<Rightarrow> correlationRule \<Rightarrow> alert" where
  "newCorrelatedAlert oid now c rule =
     \<lparr>alertOid = oid, title = cTitle c, severity = calculateCorrelationSeverity c,
      atype = crType rule, status = Active, sourceIp = cSourceIp c,
      affectedAssets = (case cAffectedAssets c of None \<Rightarrow> [] | Some xs \<Rightarrow> xs),
      attackVector = Some (cAttackVector c),
      confidence = (case cConfidence c of None \<Rightarrow> 50 | Some v \<Rightarrow> v), riskScore = 5,
      relatedLogs = cRelatedLogs c, correlationId = Some (cCorrelationId c),
      detectionMethod = ''correlation'', assignedTo = None, timeline = [], notifications = [],
      createdAt = now, resolvedAt = None, resolvedBy = None, resolutionNotes = None\<rparr>"

text \<open>
  \<^verbatim>\<open>alert.save()\<close> validates the document against the schema before the pre-save hook
  runs, and rejects it with a validation error when a validator fails. The engine takes the
  alert's \<^verbatim>\<open>type\<close> from the correlation rule, and the schema admits only the eleven types
  below; the confidence must lie between 0 and 100. The validators on the title, the
  description and the format of the source IP read text that the engine's templates
  produce and are not modelled.
\<close>

definition alertTypes :: "string list" where
  "alertTypes =
     [''brute_force'', ''sql_injection'', ''xss_attack'', ''ddos'', ''malware'',
      ''unauthorized_access'', ''data_exfiltration'', ''privilege_escalation'', ''anomaly'',
      ''policy_violation'', ''other'']"

definition schemaValidates :: "alert \<Rightarrow> bool" where
  "schemaValidates a =
     (atype a \<in> set alertTypes \<and> 0 \<le> confidence a \<and> confidence a \<le> 100)"

datatype saveError = ValidationError

text \<open>
  The \<^verbatim>\<open>catch\<close> block logs the error and throws it again: the caller gets the error and
  nothing has been stored.
\<close>

definition createCorrelatedAlert ::
    "int \<Rightarrow> correlationData \<Rightarrow> correlationRule \<Rightarrow> detectorState \<Rightarrow>
     detectorState \<times> (saveError + alert)" where
  "createCorrelatedAlert now c rule st =
     (case findOneIndex (isSameCorrelation c) (alertCollection st) of
        Some i \<Rightarrow>
          (st\<lparr>logged := logged st @ [CorrelationAlreadyExists (cCorrelationId c)]\<rparr>,
           Inr (alertCollection st ! i))
      | None \<Rightarrow>
          (let doc = newCorrelatedAlert (nextOid st) now c rule
           in if schemaValidates doc
              then (let a = save doc
                    in (st\<lparr>alertCollection := alertCollection st @ [a],
                            nextOid := Suc (nextOid st),
                            logged := logged st @ [NewCorrelatedAlertCreated (alertOid a)]\<rparr>,
                        Inr a))
              else (st\<lparr>logged := logged st @ [ErrorCreatingCorrelatedAlert]\<rparr>,
                    Inl ValidationError)))"

text \<open>The rule types of the correlation engine's own rule table.\<close>

definition correlationRuleTypes :: "string list" where
  "correlationRuleTypes =
     [''attack_chain'', ''coordinated_attack'', ''lateral_movement'', ''data_breach'']"

section \<open>Notification service: queue and escalation scan\<close>

text \<open>
  An entry of the in-memory \<^verbatim>\<open>notificationQueue\<close>. The service mutates queue entries in
  place while it processes them; the model rebuilds the queue with the updated entries.
\<close>

datatype queueStatus = Pending | Sent | Failed

record notification =
  qAlertId :: nat
  qChannels :: "string list"
  qPriority :: nat
  qCreatedAt :: int
  qAttempts :: nat
  qMaxAttempts :: nat
  qStatus :: queueStatus
  qSentAt :: "int option"



datatype notifierLine =
    CheckingEscalations
  | EscalatingAlert nat
  | NotificationQueued nat "string list"
  | ChannelNotification string nat
  | NotificationSent nat

text \<open>
  The state of the service: the alert collection, the queue, the channel table (name and
  \<^verbatim>\<open>enabled\<close> flag; a handler only writes to the logger) and the logger's output.
\<close>

record notifierState =
  alertStore :: "alert list"
  notificationQueue :: "notification list"
  notificationChannels :: "(string \<times> bool) list"
  notifierLog :: "notifierLine list"


text \<open>\<^verbatim>\<open>Array.prototype.join\<close>.\<close>

fun joinWith :: "string \<Rightarrow> string list \<Rightarrow> string" where
  "joinWith sep [] = []"
| "joinWith sep [x] = x"
| "joinWith sep (x # y # ys) = x @ sep @ joinWith sep (y # ys)"


definition runChannelHandlers :: "notification \<Rightarrow> notifierState \<Rightarrow> notifierState" where
  "runChannelHandlers n st =
     fold (\<lambda>channelName s.
             (case map_of (notificationChannels s) channelName of
                Some True \<Rightarrow> s\<lparr>notifierLog := notifierLog s @
                                   [ChannelNotification channelName (qAlertId n)]\<rparr>
              | _ \<Rightarrow> s))
          (qChannels n) st"











section \<open>Sample inputs\<close>

definition failedLoginLog :: "nat \<Rightarrow> log" where
  "failedLoginLog i =
     \<lparr>lId = i, lTimestamp = 1000 + int i, lSource = ''sshd'',
      lMessage = ''Failed password for admin from 203.0.113.10'',
      lCategory = Security, lSourceIp = Some ''203.0.113.10'', lProcessed = False\<rparr>"

definition sampleState :: detectorState where
  "sampleState =
     \<lparr>logCollection = map failedLoginLog [11, 12, 13, 14, 15, 16], alertCollection = [],
      nextOid = 0, logged = []\<rparr>"

definition noFindings :: "log list \<Rightarrow> ruleError + detection list" where
  "noFindings ls = Inr []"

definition brokenRule :: detectionRule where
  "brokenRule =
     \<lparr>name = ''Broken Rule'', rtype = ''other'',
      condition = (\<lambda>ls. Inl (RuleEvaluationError ''TypeError'')),
      rseverity = Low, enabled = True\<rparr>"

definition sampleRules :: "detectionRule list" where
  "sampleRules = detectionRules alertThresholds noFindings noFindings noFindings noFindings"

definition recentSample :: "log list" where
  "recentSample = map failedLoginLog [16, 15, 14, 13, 12, 11]"

text \<open>
  The same six failed logins after an earlier cycle has handled the first of them: it is
  marked processed, the other five are not.
\<close>

definition partlyProcessedState :: detectorState where
  "partlyProcessedState =
     \<lparr>logCollection =
        (failedLoginLog 11)\<lparr>lProcessed := True\<rparr> # map failedLoginLog [12, 13, 14, 15, 16],
      alertCollection = [], nextOid = 0, logged = []\<rparr>"

definition recentPartly :: "log list" where
  "recentPartly = map failedLoginLog [16, 15, 14, 13, 12]"

definition sampleAlert :: alert where
  "sampleAlert =
     \<lparr>alertOid = 0, title = ''Brute Force Attack Detected from 203.0.113.10'',
      severity = High, atype = ''brute_force'', status = Active,
      sourceIp = Some ''203.0.113.10'', affectedAssets = [''Authentication System''],
      attackVector = Some ''Authentication brute force'', confidence = 90,
      riskScore = 36 / 5, relatedLogs = [16, 15, 14, 13, 12, 11], correlationId = None,
      detectionMethod = ''signature'', assignedTo = None, timeline = [], notifications = [],
      createdAt = 2000, resolvedAt = None, resolvedBy = None, resolutionNotes = None\<rparr>"

definition chainAlert :: alert where
  "chainAlert =
     \<lparr>alertOid = 3, title = ''Multi-Stage Attack Chain Detected from 10.0.0.50'',
      severity = High, atype = ''other'', status = Active, sourceIp = Some ''10.0.0.50'',
      affectedAssets = [''web-01''], attackVector = Some ''Multi-stage attack chain'',
      confidence = 60, riskScore = 24 / 5, relatedLogs = [], correlationId = Some ''CHAIN-1-1000050'',
      detectionMethod = ''correlation'', assignedTo = None, timeline = [], notifications = [],
      createdAt = 1000, resolvedAt = None, resolvedBy = None, resolutionNotes = None\<rparr>"

definition chainCandidate :: correlationData where
  "chainCandidate =
     \<lparr>cTitle = ''Multi-Stage Attack Chain Detected from 10.0.0.50'',
      cSourceIp = Some ''10.0.0.50'', cConfidence = Some 95, cRelatedLogs = [21, 22],
      cAffectedAssets = Some [''web-01'', ''db-01''],
      cAttackVector = ''Multi-stage attack chain'', cCorrelationId = ''CHAIN-1-1000050''\<rparr>"

definition chainRule :: correlationRule where
  "chainRule =
     \<lparr>crName = ''Multi-Stage Attack Detection'', crType = ''attack_chain'',
      crTimeWindow = 3600000, crEnabled = True\<rparr>"

definition chainState :: detectorState where
  "chainState = \<lparr>logCollection = [], alertCollection = [chainAlert], nextOid = 4, logged = []\<rparr>"

definition mergeState :: detectorState where
  "mergeState = \<lparr>logCollection = [], alertCollection = [sampleAlert], nextOid = 1, logged = []\<rparr>"

definition mergeCandidate :: alertData where
  "mergeCandidate =
     \<lparr>adTitle = ''Brute Force Attack Detected from 203.0.113.10'',
      adSourceIp = Some ''203.0.113.10'', adConfidence = 95,
      adRelatedLogs = Some [17, 18, 19, 20, 21, 22, 23],
      adAttackVector = ''Authentication brute force'',
      adAffectedAssets = [''Authentication System''], adType = ''brute_force'',
      adSeverity = High, adDetectionMethod = ''signature''\<rparr>"







section \<open>Auxiliary notions for the statements\<close>

text \<open>The severity column of the rule table, read as a function of the rule type.\<close>

definition ruleSeverityOf :: "string \<Rightarrow> severity option" where
  "ruleSeverityOf t =
     (if t = ''brute_force'' \<or> t = ''privilege_escalation'' then Some High
      else if t = ''sql_injection'' \<or> t = ''data_exfiltration'' then Some Critical
      else if t = ''anomaly'' then Some Medium
      else None)"

text \<open>
  The alerts appended to the collection from position \<open>n\<close> on carry their rule's severity
  and, when that is high or critical, an immediate notification has been logged for them.
\<close>

definition createdWell :: "nat \<Rightarrow> detectorState \<Rightarrow> bool" where
  "createdWell n st =
     (n \<le> length (alertCollection st) \<and>
      (\<forall>a \<in> set (drop n (alertCollection st)).
         Some (severity a) = ruleSeverityOf (atype a) \<and>
         (severity a = High \<or> severity a = Critical \<longrightarrow>
            ImmediateAttention (alertOid a) \<in> set (logged st))))"

text \<open>What the merge branch of \<^verbatim>\<open>createAlert\<close> stores for an existing alert.\<close>

definition mergedAlert :: "alertData \<Rightarrow> alert \<Rightarrow> alert" where
  "mergedAlert ad e =
     save (e\<lparr>confidence := max (confidence e) (adConfidence ad),
             relatedLogs := relatedLogs e @ (case adRelatedLogs ad of None \<Rightarrow> [] | Some ids \<Rightarrow> ids)\<rparr>)"

text \<open>
  The dedup key of a stored alert, and the keys of the candidates that the enabled rules
  hand to \<^verbatim>\<open>createAlert\<close> for a batch (a rule that throws hands over none).
\<close>

definition alertKey :: "alert \<Rightarrow> string \<times> string option" where
  "alertKey a = (atype a, sourceIp a)"

definition detectionKeys :: "detectionRule list \<Rightarrow> log list \<Rightarrow> (string \<times> string option) list" where
  "detectionKeys rules ls =
     concat (map (\<lambda>r. if enabled r
                       then (case condition r ls of
                               Inl e \<Rightarrow> []
                             | Inr ds \<Rightarrow> map (\<lambda>d. (rtype r, dSourceIp d)) ds)
                       else [])
                 rules)"

text \<open>
  For a dedup key \<open>k\<close>: the number of stored alerts with that type and source IP, and the
  number of those that the \<^verbatim>\<open>findOne\<close> of \<^verbatim>\<open>createAlert\<close> can return at time \<open>now\<close>, being
  active or investigating and created within the time window.
\<close>

definition keyCount :: "string \<times> string option \<Rightarrow> detectorState \<Rightarrow> nat" where
  "keyCount k st = length (filter (\<lambda>a. alertKey a = k) (alertCollection st))"

definition liveCount :: "thresholds \<Rightarrow> int \<Rightarrow> string \<times> string option \<Rightarrow> detectorState \<Rightarrow> nat" where
  "liveCount th now k st =
     length (filter (\<lambda>a. alertKey a = k \<and> (status a = Active \<or> status a = Investigating) \<and>
                         createdAt a \<ge> now - timeWindow th)
               (alertCollection st))"

text \<open>The failed logins of a batch that come from one source IP.\<close>

definition attemptsFrom :: "string \<Rightarrow> log list \<Rightarrow> log list" where
  "attemptsFrom ip logs = filter (\<lambda>l. isFailedLogin l \<and> lSourceIp l = Some ip) logs"

text \<open>
  \<^verbatim>\<open>queueNotification\<close> writes one ``Notification queued'' line per entry it pushes;
  \<open>enqueuesFor t\<close> counts the lines for the alert with ObjectId \<open>t\<close>.
\<close>

definition isEnqueueFor :: "nat \<Rightarrow> notifierLine \<Rightarrow> bool" where
  "isEnqueueFor t l = (case l of NotificationQueued i cs \<Rightarrow> i = t | _ \<Rightarrow> False)"

definition enqueuesFor :: "nat \<Rightarrow> notifierLine list \<Rightarrow> nat" where
  "enqueuesFor t ls = length (filter (isEnqueueFor t) ls)"

text \<open>
  The stored documents with ObjectId \<open>t\<close>, an alert with further notification records
  pushed onto it, and the body of the loop over \<^verbatim>\<open>alertsToEscalate\<close>.
\<close>

definition entryOf :: "nat \<Rightarrow> notifierState \<Rightarrow> alert list" where
  "entryOf t st = filter (\<lambda>a. alertOid a = t) (alertStore st)"

definition grow :: "notificationRecord list \<Rightarrow> alert \<Rightarrow> alert" where
  "grow ns a = a\<lparr>notifications := notifications a @ ns\<rparr>"


text \<open>
  The notifications of the alert \<open>t\<close> that the service holds, each named by its method, the
  comma-joined channel list: \<open>pendingMethods\<close> are those of the entries waiting in the
  queue, and \<open>heldMethods\<close> lists the records on the stored alert followed by the waiting
  ones. \<^verbatim>\<open>queueNotification\<close> pushes a waiting entry; processing the queue turns a waiting
  entry into a record with the same method.
\<close>

definition pendingMethods :: "nat \<Rightarrow> notifierState \<Rightarrow> string list" where
  "pendingMethods t st =
     map (\<lambda>n. joinWith '','' (qChannels n))
       (filter (\<lambda>n. qAlertId n = t \<and> qStatus n = Pending) (notificationQueue st))"


section \<open>Properties\<close>

subsection \<open>Risk score\<close>

lemma riskScore_preSave:
  "riskScore (preSave a) = min 10 (severityWeight (severity a) * confidence a / 100)"
  by (cases "severity a") (simp_all add: preSave_def Let_def)

lemma preSave_fields [simp]:
  "severity (preSave a) = severity a"
  "confidence (preSave a) = confidence a"
  "status (preSave a) = status a"
  "timeline (preSave a) = timeline a"
  "resolvedAt (preSave a) = resolvedAt a"
  "resolvedBy (preSave a) = resolvedBy a"
  "atype (preSave a) = atype a"
  "sourceIp (preSave a) = sourceIp a"
  "relatedLogs (preSave a) = relatedLogs a"
  "createdAt (preSave a) = createdAt a"
  "alertOid (preSave a) = alertOid a"
  "notifications (preSave a) = notifications a"
  "correlationId (preSave a) = correlationId a"
  by (simp_all add: preSave_def Let_def)

text \<open>
  C3. After every save the stored risk score is
  \<open>min 10 (severityWeight severity * confidence / 100)\<close>, with weights 2, 5, 8 and 10 for
  low, medium, high and critical. The paths that change an alert's severity or confidence
  (\<^verbatim>\<open>updateStatus\<close> and both branches of \<^verbatim>\<open>createAlert\<close> here) end in a save, so the
  equation holds for the alert they store.
\<close>

theorem riskScore_after_save:
  "riskScore (save a) = min 10 (severityWeight (severity a) * confidence a / 100)
   \<and> riskScore (updateStatus now s u n a) =
       min 10 (severityWeight (severity (updateStatus now s u n a))
                 * confidence (updateStatus now s u n a) / 100)
   \<and> riskScore (snd (createAlert th now ad st)) =
       min 10 (severityWeight (severity (snd (createAlert th now ad st)))
                 * confidence (snd (createAlert th now ad st)) / 100)
   \<and> severityWeight Low = 2 \<and> severityWeight Medium = 5
   \<and> severityWeight High = 8 \<and> severityWeight Critical = 10"
proof -
  have sv: "riskScore (save x) = min 10 (severityWeight (severity (save x)) * confidence (save x) / 100)"
    for x by (simp add: save_def riskScore_preSave)
  have "riskScore (updateStatus now s u n a) =
       min 10 (severityWeight (severity (updateStatus now s u n a))
                 * confidence (updateStatus now s u n a) / 100)"
    unfolding updateStatus_def Let_def by (rule sv)
  moreover have "riskScore (snd (createAlert th now ad st)) =
       min 10 (severityWeight (severity (snd (createAlert th now ad st)))
                 * confidence (snd (createAlert th now ad st)) / 100)"
  proof (cases "findOneIndex (isSimilarAlert th now ad) (alertCollection st)")
    case None
    then have "snd (createAlert th now ad st) = save (newIntrusionAlert (nextOid st) now ad)"
      by (simp add: createAlert_def Let_def)
    then show ?thesis by (simp only: sv)
  next
    case (Some i)
    then obtain x where "snd (createAlert th now ad st) = save x"
      by (simp add: createAlert_def Let_def)
    then show ?thesis by (simp only: sv)
  qed
  ultimately show ?thesis
    by (simp add: save_def riskScore_preSave)
qed

subsection \<open>Composite severity\<close>

text \<open>
  C9. The severity of a composite alert is critical when confidence is at least 80 and at
  least three assets are affected, otherwise high when confidence is at least 70 or at least
  two assets are affected, otherwise medium when confidence is at least 60, otherwise low;
  a missing confidence counts as 50 and a missing asset list as empty. The code also turns
  a confidence of 0 into 50, which selects the same branch as 0 does.
\<close>

theorem calculateCorrelationSeverity_spec:
  "calculateCorrelationSeverity c =
     (let conf = (case cConfidence c of None \<Rightarrow> 50 | Some v \<Rightarrow> v);
          n = (case cAffectedAssets c of None \<Rightarrow> 0 | Some xs \<Rightarrow> length xs)
      in if 80 \<le> conf \<and> 3 \<le> n then Critical
         else if 70 \<le> conf \<or> 2 \<le> n then High
         else if 60 \<le> conf then Medium
         else Low)"
  by (simp add: calculateCorrelationSeverity_def Let_def split: option.splits)

subsection \<open>Insertion-ordered maps\<close>

lemma map_of_mapSet: "map_of (mapSet k v m) = (map_of m)(k \<mapsto> v)"
  by (induction m) (auto simp: fun_eq_iff)

lemma keys_mapSet:
  "map fst (mapSet k v m) = (if k \<in> fst ` set m then map fst m else map fst m @ [k])"
  by (induction m) auto

lemma distinct_mapSet: "distinct (map fst m) \<Longrightarrow> distinct (map fst (mapSet k v m))"
  by (simp add: keys_mapSet)

text \<open>
  A \<^verbatim>\<open>forEach\<close> over a map that pushes findings keyed by the entry's key: the findings
  for one key are those of that key's entry.
\<close>

lemma filter_concat_by_key:
  assumes "distinct (map fst m)"
    and "\<And>k v d. d \<in> set (f k v) \<Longrightarrow> key d = Some k"
  shows "filter (\<lambda>d. key d = Some ip) (concat (map (\<lambda>(k, v). f k v) m)) =
         (case map_of m ip of None \<Rightarrow> [] | Some v \<Rightarrow> f ip v)"
  using assms(1)
proof (induction m)
  case Nil
  then show ?case by simp
next
  case (Cons p m)
  obtain k v where p: "p = (k, v)" by (cases p)
  have other: "k' \<noteq> ip \<Longrightarrow> filter (\<lambda>d. key d = Some ip) (f k' v') = []" for k' v'
    using assms(2) by (auto simp: filter_empty_conv)
  have same: "filter (\<lambda>d. key d = Some ip) (f ip v') = f ip v'" for v'
    using assms(2) by (auto simp: filter_id_conv)
  show ?case
  proof (cases "k = ip")
    case True
    with Cons.prems p have "map_of m ip = None"
      by (auto simp: map_of_eq_None_iff)
    with Cons True p show ?thesis by (simp add: same)
  next
    case False
    with Cons p show ?thesis by (simp add: other)
  qed
qed

subsection \<open>Brute-force rule\<close>

lemma map_of_groupFailedAttempt:
  "map_of (groupFailedAttempt l m) =
     (if isFailedLogin l
      then (map_of m)(the (lSourceIp l) \<mapsto>
              (case map_of m (the (lSourceIp l)) of None \<Rightarrow> [] | Some xs \<Rightarrow> xs) @ [l])
      else map_of m)"
  by (auto simp: groupFailedAttempt_def Let_def mapHas_def mapGet_def map_of_mapSet
           split: option.splits)

lemma distinct_groupFailedAttempt:
  "distinct (map fst m) \<Longrightarrow> distinct (map fst (groupFailedAttempt l m))"
  by (auto simp: groupFailedAttempt_def Let_def distinct_mapSet split: option.splits)

lemma distinct_fold_group:
  "distinct (map fst m) \<Longrightarrow> distinct (map fst (fold groupFailedAttempt logs m))"
  by (induction logs arbitrary: m) (simp_all add: distinct_groupFailedAttempt)

lemma isFailedLogin_ip: "isFailedLogin l \<Longrightarrow> lSourceIp l = Some (the (lSourceIp l))"
  by (auto simp: isFailedLogin_def truthyStr_def split: option.splits)

lemma map_of_fold_group:
  "map_of (fold groupFailedAttempt logs m) ip =
     (if attemptsFrom ip logs = [] then map_of m ip
      else Some ((case map_of m ip of None \<Rightarrow> [] | Some xs \<Rightarrow> xs) @ attemptsFrom ip logs))"
proof (induction logs arbitrary: m)
  case Nil
  then show ?case by (simp add: attemptsFrom_def)
next
  case (Cons l logs)
  show ?case
  proof (cases "isFailedLogin l \<and> lSourceIp l = Some ip")
    case True
    then show ?thesis
      using Cons.IH [of "groupFailedAttempt l m"]
      by (auto simp: attemptsFrom_def map_of_groupFailedAttempt split: option.splits)
  next
    case False
    then have "map_of (groupFailedAttempt l m) ip = map_of m ip"
      using isFailedLogin_ip [of l] by (auto simp: map_of_groupFailedAttempt)
    with False show ?thesis
      using Cons.IH [of "groupFailedAttempt l m"]
      by (auto simp: attemptsFrom_def)
  qed
qed

text \<open>
  Over any list of events: let \<open>n\<close> be the number of failed logins in the list whose source
  IP is \<open>ip\<close>. From the threshold on, the rule returns exactly one detection for \<open>ip\<close>, with
  confidence \<open>min 95 (60 + 5 n)\<close>; below it, none. (An address with no such event has no
  group, so \<open>0 < n\<close> is part of the first case; it only matters for a threshold of 0.)
\<close>

lemma detectBruteForce_group_count:
  assumes "n = length (filter (\<lambda>l. isFailedLogin l \<and> lSourceIp l = Some ip) logs)"
  shows "(bruteForceAttempts th \<le> n \<and> 0 < n \<longrightarrow>
            (\<exists>d. filter (\<lambda>d. dSourceIp d = Some ip) (detectBruteForce th logs) = [d] \<and>
                 dConfidence d = min 95 (60 + 5 * real n)))
       \<and> (n < bruteForceAttempts th \<longrightarrow>
            filter (\<lambda>d. dSourceIp d = Some ip) (detectBruteForce th logs) = [])"
proof -
  let ?G = "fold groupFailedAttempt logs []"
  let ?f = "\<lambda>k v. if bruteForceAttempts th \<le> length v then [bruteForceDetection k v] else []"
  have d: "distinct (map fst ?G)" by (rule distinct_fold_group) simp
  have k: "\<And>k v d. d \<in> set (?f k v) \<Longrightarrow> dSourceIp d = Some k"
    by (auto simp: bruteForceDetection_def split: if_splits)
  have eq: "filter (\<lambda>d. dSourceIp d = Some ip) (detectBruteForce th logs) =
        (case map_of ?G ip of None \<Rightarrow> [] | Some v \<Rightarrow> ?f ip v)"
    unfolding detectBruteForce_def Let_def
    using filter_concat_by_key [of ?G ?f dSourceIp ip, OF d k] by simp
  have m: "map_of ?G ip = (if attemptsFrom ip logs = [] then None else Some (attemptsFrom ip logs))"
    by (simp add: map_of_fold_group)
  have n: "n = length (attemptsFrom ip logs)" using assms by (simp add: attemptsFrom_def)
  show ?thesis
    unfolding eq m n
    by (auto simp: bruteForceDetection_def mult.commute)
qed

lemma isFailedLogin_failedLoginLog: "isFailedLogin (failedLoginLog i)"
  by (simp add: isFailedLogin_def failedLoginLog_def toLowerCase_def toLowerChar_def truthyStr_def)

subsection \<open>The detection cycle\<close>

lemma logCollection_createAlert [simp]:
  "logCollection (fst (createAlert th now ad st)) = logCollection st"
  by (simp add: createAlert_def Let_def triggerImmediateNotification_def split: option.splits)

lemma logCollection_fold_createAlert [simp]:
  "logCollection (fold (\<lambda>d s. fst (createAlert th now (f d) s)) ds st) = logCollection st"
  by (induction ds arbitrary: st) simp_all

lemma logCollection_executeDetectionRule [simp]:
  "logCollection (executeDetectionRule th now rule ls st) = logCollection st"
  by (simp add: executeDetectionRule_def split: sum.splits)

lemma logCollection_runRules [simp]:
  "logCollection (runRules th now rules ls st) = logCollection st"
  unfolding runRules_def by (induction rules arbitrary: st) simp_all

lemma runRules_append:
  "runRules th now (rs1 @ rs2) ls st = runRules th now rs2 ls (runRules th now rs1 ls st)"
  by (simp add: runRules_def)

lemma runRules_Cons:
  "runRules th now (r # rs) ls st =
     runRules th now rs ls (if enabled r then executeDetectionRule th now r ls st else st)"
  by (simp add: runRules_def)

lemma set_fetchRecentLogs:
  "set (fetchRecentLogs th now st) =
     {l \<in> set (logCollection st). lTimestamp l \<ge> now - timeWindow th \<and> \<not> lProcessed l}"
  by (auto simp: fetchRecentLogs_def)

lemma fetched_marked:
  assumes that: "logCollection st' = logCollection st"
    and "l \<in> set (fetchRecentLogs th now st)"
  shows "l\<lparr>lProcessed := True\<rparr> \<in>
           set (logCollection (markProcessed (map lId (fetchRecentLogs th now st)) st'))"
proof -
  let ?ids = "map lId (fetchRecentLogs th now st)"
  let ?f = "\<lambda>l. if lId l \<in> set ?ids then l\<lparr>lProcessed := True\<rparr> else l"
  from assms(2) have mem: "l \<in> set (logCollection st')"
    using that by (simp add: set_fetchRecentLogs)
  from assms(2) have fl: "?f l = l\<lparr>lProcessed := True\<rparr>" by simp
  have "?f l \<in> ?f ` set (logCollection st')" using mem by (rule imageI)
  then have "l\<lparr>lProcessed := True\<rparr> \<in> ?f ` set (logCollection st')"
    by (simp only: fl)
  moreover from assms(2) have "length ?ids > 0" by (cases "fetchRecentLogs th now st") auto
  ultimately show ?thesis by (simp add: markProcessed_def)
qed

text \<open>
  C8. When the condition of an enabled rule throws, the rule engine logs the error and
  carries on with the remaining rules from the state the earlier rules left; at the end
  of the cycle every fetched event is stored with \<open>processed = true\<close>, and no event is
  added or dropped.
\<close>

theorem rule_failure_is_contained:
  assumes "enabled r"
    and "condition r (fetchRecentLogs th now st) = Inl e"
  shows "runDetectionCycle th now (rs1 @ r # rs2) st =
           (let recentLogs = fetchRecentLogs th now st;
                s1 = runRules th now rs1 recentLogs (st\<lparr>logged := logged st @ [CycleStarted]\<rparr>);
                s2 = runRules th now rs2 recentLogs (s1\<lparr>logged := logged s1 @ [RuleError (name r)]\<rparr>);
                s3 = markProcessed (map lId recentLogs) s2
            in s3\<lparr>logged := logged s3 @ [CycleCompleted]\<rparr>)
       \<and> (\<forall>l \<in> set (fetchRecentLogs th now st).
             l\<lparr>lProcessed := True\<rparr> \<in>
               set (logCollection (runDetectionCycle th now (rs1 @ r # rs2) st)))
       \<and> map lId (logCollection (runDetectionCycle th now (rs1 @ r # rs2) st)) =
           map lId (logCollection st)"
proof (intro conjI ballI)
  have f: "fetchRecentLogs th now (st\<lparr>logged := x\<rparr>) = fetchRecentLogs th now st" for x
    by (simp add: fetchRecentLogs_def)
  show "runDetectionCycle th now (rs1 @ r # rs2) st =
           (let recentLogs = fetchRecentLogs th now st;
                s1 = runRules th now rs1 recentLogs (st\<lparr>logged := logged st @ [CycleStarted]\<rparr>);
                s2 = runRules th now rs2 recentLogs (s1\<lparr>logged := logged s1 @ [RuleError (name r)]\<rparr>);
                s3 = markProcessed (map lId recentLogs) s2
            in s3\<lparr>logged := logged s3 @ [CycleCompleted]\<rparr>)"
    using assms
    by (simp add: runDetectionCycle_def f runRules_append runRules_Cons executeDetectionRule_def
          Let_def)
next
  fix l assume l: "l \<in> set (fetchRecentLogs th now st)"
  have f: "fetchRecentLogs th now (st\<lparr>logged := x\<rparr>) = fetchRecentLogs th now st" for x
    by (simp add: fetchRecentLogs_def)
  show "l\<lparr>lProcessed := True\<rparr> \<in>
               set (logCollection (runDetectionCycle th now (rs1 @ r # rs2) st))"
    using fetched_marked [OF _ l, of "runRules th now (rs1 @ r # rs2) (fetchRecentLogs th now st)
             (st\<lparr>logged := logged st @ [CycleStarted]\<rparr>)"]
    by (simp add: runDetectionCycle_def Let_def f)
next
  show "map lId (logCollection (runDetectionCycle th now (rs1 @ r # rs2) st)) =
           map lId (logCollection st)"
    by (simp add: runDetectionCycle_def Let_def markProcessed_def o_def)
qed

subsection \<open>Alert materialisation\<close>

lemma findOneIndex_Some:
  "findOneIndex P xs = Some i \<Longrightarrow> i < length xs \<and> P (xs ! i)"
proof (induction xs arbitrary: i)
  case Nil
  then show ?case by simp
next
  case (Cons x xs)
  then show ?case by (auto split: if_splits)
qed

lemma findOneIndex_None: "findOneIndex P xs = None \<longleftrightarrow> (\<forall>x \<in> set xs. \<not> P x)"
  by (induction xs) auto

lemma in_drop_update:
  assumes a: "a \<in> set (drop n (xs[i := y]))"
  shows "a \<in> set (drop n xs) \<or> (a = y \<and> n \<le> i \<and> i < length xs)"
proof (cases "i < n")
  case True
  with a show ?thesis by (simp add: drop_update_cancel)
next
  case False
  then have "drop n (xs[i := y]) = (drop n xs)[i - n := y]"
    by (simp add: drop_update_swap)
  with a have ins: "a \<in> insert y (set (drop n xs))"
    using set_update_subset_insert [of "drop n xs" "i - n" y] by auto
  have "i < length xs" if "a \<notin> set (drop n xs)"
  proof (rule ccontr)
    assume "\<not> i < length xs"
    then have "xs[i := y] = xs" by (simp add: list_update_beyond)
    with a that show False by simp
  qed
  with ins False show ?thesis by auto
qed

lemma nth_in_drop:
  assumes "n \<le> i" and "i < length xs"
  shows "xs ! i \<in> set (drop n xs)"
proof -
  from assms have "drop n xs ! (i - n) = xs ! i" by simp
  moreover from assms have "i - n < length (drop n xs)" by simp
  ultimately show ?thesis using nth_mem [of "i - n" "drop n xs"] by simp
qed

lemma createAlert_merge:
  assumes "findOneIndex (isSimilarAlert th now ad) (alertCollection st) = Some i"
  shows "createAlert th now ad st =
     (st\<lparr>alertCollection := (alertCollection st)[i := mergedAlert ad (alertCollection st ! i)],
         logged := logged st @ [UpdatedExistingAlert (alertOid (alertCollection st ! i))]\<rparr>,
      mergedAlert ad (alertCollection st ! i))"
  using assms
  by (simp add: createAlert_def Let_def save_def preSave_def mergedAlert_def split: option.splits)

lemma createAlert_new:
  assumes "findOneIndex (isSimilarAlert th now ad) (alertCollection st) = None"
  shows "createAlert th now ad st =
     (st\<lparr>alertCollection := alertCollection st @ [save (newIntrusionAlert (nextOid st) now ad)],
         nextOid := Suc (nextOid st),
         logged := logged st @ [NewAlertCreated (nextOid st)] @
                 (if adSeverity ad = High \<or> adSeverity ad = Critical
                  then [ImmediateAttention (nextOid st)] else [])\<rparr>,
      save (newIntrusionAlert (nextOid st) now ad))"
  using assms
  by (simp add: createAlert_def Let_def save_def newIntrusionAlert_def
        triggerImmediateNotification_def)

lemma mergedAlert_fields [simp]:
  "severity (mergedAlert ad e) = severity e"
  "atype (mergedAlert ad e) = atype e"
  "alertOid (mergedAlert ad e) = alertOid e"
  "status (mergedAlert ad e) = status e"
  "sourceIp (mergedAlert ad e) = sourceIp e"
  "createdAt (mergedAlert ad e) = createdAt e"
  "timeline (mergedAlert ad e) = timeline e"
  "confidence (mergedAlert ad e) = max (confidence e) (adConfidence ad)"
  by (simp_all add: mergedAlert_def save_def)

lemma newAlert_fields [simp]:
  "severity (save (newIntrusionAlert oid now ad)) = adSeverity ad"
  "atype (save (newIntrusionAlert oid now ad)) = adType ad"
  "alertOid (save (newIntrusionAlert oid now ad)) = oid"
  "status (save (newIntrusionAlert oid now ad)) = Active"
  "sourceIp (save (newIntrusionAlert oid now ad)) = adSourceIp ad"
  "createdAt (save (newIntrusionAlert oid now ad)) = now"
  by (simp_all add: newIntrusionAlert_def save_def)

lemma createdWell_createAlert:
  assumes cw: "createdWell n st" and sev: "Some (adSeverity ad) = ruleSeverityOf (adType ad)"
  shows "createdWell n (fst (createAlert th now ad st))"
proof (cases "findOneIndex (isSimilarAlert th now ad) (alertCollection st)")
  case None
  show ?thesis
    using cw sev unfolding createAlert_new [OF None]
    by (auto simp: createdWell_def)
next
  case (Some i)
  let ?xs = "alertCollection st"
  from findOneIndex_Some [OF Some] have i: "i < length ?xs" by simp
  have ac: "alertCollection (fst (createAlert th now ad st)) = ?xs[i := mergedAlert ad (?xs ! i)]"
    and lg: "logged (fst (createAlert th now ad st)) =
               logged st @ [UpdatedExistingAlert (alertOid (?xs ! i))]"
    by (simp_all add: createAlert_merge [OF Some])
  show ?thesis
    unfolding createdWell_def ac lg
  proof (rule conjI, goal_cases)
    case 1
    show ?case using cw by (simp add: createdWell_def)
  next
    case 2
    show ?case
    proof (rule ballI)
    fix a
    assume "a \<in> set (drop n (?xs[i := mergedAlert ad (?xs ! i)]))"
    from in_drop_update [OF this]
    have "\<exists>b \<in> set (drop n ?xs).
            severity a = severity b \<and> atype a = atype b \<and> alertOid a = alertOid b"
      using nth_in_drop [of n i ?xs] by auto
    then show "Some (severity a) = ruleSeverityOf (atype a) \<and>
         (severity a = High \<or> severity a = Critical \<longrightarrow>
          ImmediateAttention (alertOid a)
            \<in> set (logged st @ [UpdatedExistingAlert (alertOid (?xs ! i))]))"
      using cw by (auto simp: createdWell_def)
    qed
  qed
qed

lemma createdWell_executeDetectionRule:
  assumes "createdWell n st" and "Some (rseverity r) = ruleSeverityOf (rtype r)"
  shows "createdWell n (executeDetectionRule th now r ls st)"
proof (cases "condition r ls")
  case (Inl e)
  with assms(1) show ?thesis
    by (simp add: executeDetectionRule_def createdWell_def)
next
  case (Inr ds)
  have "createdWell n (fold (\<lambda>d s. fst (createAlert th now (toAlertData r d) s)) ds st)"
    using assms(1)
  proof (induction ds arbitrary: st)
    case Nil
    then show ?case by simp
  next
    case (Cons d ds)
    have "createdWell n (fst (createAlert th now (toAlertData r d) st))"
      by (rule createdWell_createAlert [OF Cons.prems]) (simp add: toAlertData_def assms(2))
    from Cons.IH [OF this] show ?case by simp
  qed
  with Inr show ?thesis by (simp add: executeDetectionRule_def)
qed

lemma createdWell_runRules:
  assumes "createdWell n st"
    and "\<forall>r \<in> set rules. Some (rseverity r) = ruleSeverityOf (rtype r)"
  shows "createdWell n (runRules th now rules ls st)"
  using assms
proof (induction rules arbitrary: st)
  case Nil
  then show ?case by (simp add: runRules_def)
next
  case (Cons r rules)
  have "createdWell n (if enabled r then executeDetectionRule th now r ls st else st)"
    using Cons.prems by (simp add: createdWell_executeDetectionRule)
  from Cons.IH [OF this] Cons.prems(2) show ?case by (simp add: runRules_def)
qed

lemma alertCollection_markProcessed [simp]:
  "alertCollection (markProcessed ids st) = alertCollection st"
  "logged (markProcessed ids st) = logged st"
  by (simp_all add: markProcessed_def)

lemma createdWell_runDetectionCycle:
  assumes "\<forall>r \<in> set rules. Some (rseverity r) = ruleSeverityOf (rtype r)"
  shows "createdWell (length (alertCollection st)) (runDetectionCycle th now rules st)"
proof -
  let ?st0 = "st\<lparr>logged := logged st @ [CycleStarted]\<rparr>"
  have "createdWell (length (alertCollection st)) ?st0" by (simp add: createdWell_def)
  from createdWell_runRules [OF this assms, of th now "fetchRecentLogs th now ?st0"]
  show ?thesis by (simp add: runDetectionCycle_def Let_def createdWell_def)
qed

lemma detectionRules_severity:
  "\<forall>r \<in> set (detectionRules th c1 c2 c3 c4). Some (rseverity r) = ruleSeverityOf (rtype r)"
  by (simp add: detectionRules_def ruleSeverityOf_def)

text \<open>
  C10. Every alert that a detection cycle over the constructor's rule table appends to the
  collection has the severity its rule type fixes (brute force and privilege escalation
  high, SQL injection and data exfiltration critical, anomaly medium), whatever the
  detections contain; for the four high or critical types the immediate notification is
  logged.
\<close>

theorem detection_alert_severity_fixed:
  assumes "a \<in> set (drop (length (alertCollection st))
                    (alertCollection (runDetectionCycle th now (detectionRules th c1 c2 c3 c4) st)))"
  shows "Some (severity a) = ruleSeverityOf (atype a)
       \<and> (atype a \<in> {''brute_force'', ''sql_injection'', ''privilege_escalation'',
                       ''data_exfiltration''} \<longrightarrow>
            ImmediateAttention (alertOid a)
              \<in> set (logged (runDetectionCycle th now (detectionRules th c1 c2 c3 c4) st)))"
proof -
  from createdWell_runDetectionCycle [OF detectionRules_severity, where st = st and now = now and th = th] assms
  have s: "Some (severity a) = ruleSeverityOf (atype a)"
    and n: "severity a = High \<or> severity a = Critical \<longrightarrow>
        ImmediateAttention (alertOid a)
          \<in> set (logged (runDetectionCycle th now (detectionRules th c1 c2 c3 c4) st))"
    by (simp_all add: createdWell_def)
  from s have "atype a \<in> {''brute_force'', ''sql_injection'', ''privilege_escalation'',
                       ''data_exfiltration''} \<Longrightarrow> severity a = High \<or> severity a = Critical"
    by (auto simp: ruleSeverityOf_def)
  with s n show ?thesis by blast
qed

subsection \<open>A sample cycle\<close>

lemma fetch_sample:
  "fetchRecentLogs alertThresholds 2000 sampleState = recentSample"
  by (simp add: fetchRecentLogs_def sampleState_def alertThresholds_def failedLoginLog_def
        recentSample_def)

lemma group_sample:
  "fold groupFailedAttempt recentSample [] = [(''203.0.113.10'', recentSample)]"
proof -
  have ip: "lSourceIp (failedLoginLog i) = Some ''203.0.113.10''" for i
    by (simp add: failedLoginLog_def)
  show ?thesis
    by (simp add: recentSample_def groupFailedAttempt_def isFailedLogin_failedLoginLog ip
          mapHas_def mapGet_def)
qed

lemma bruteForce_sample:
  "detectBruteForce alertThresholds recentSample =
     [bruteForceDetection ''203.0.113.10'' recentSample]"
  unfolding detectBruteForce_def group_sample
  by (simp add: alertThresholds_def recentSample_def)

lemma lId_failedLoginLog: "lId (failedLoginLog i) = i"
  by (simp add: failedLoginLog_def)

lemma createAlert_sample:
  "createAlert alertThresholds 2000
     \<lparr>adTitle = ''Brute Force Attack Detected from 203.0.113.10'',
      adSourceIp = Some ''203.0.113.10'', adConfidence = 90,
      adRelatedLogs = Some [16, 15, 14, 13, 12, 11],
      adAttackVector = ''Authentication brute force'',
      adAffectedAssets = [''Authentication System''], adType = ''brute_force'',
      adSeverity = High, adDetectionMethod = ''signature''\<rparr>
     (sampleState\<lparr>logged := lg\<rparr>) =
   (sampleState\<lparr>alertCollection := [sampleAlert], nextOid := 1,
     logged := lg @ [NewAlertCreated 0, ImmediateAttention 0]\<rparr>, sampleAlert)"
  by (simp add: createAlert_def sampleState_def newIntrusionAlert_def save_def preSave_def
        triggerImmediateNotification_def sampleAlert_def Let_def)

lemma runRules_sample:
  "runRules alertThresholds 2000 sampleRules recentSample
     (sampleState\<lparr>logged := lg\<rparr>) =
   sampleState\<lparr>alertCollection := [sampleAlert], nextOid := 1,
     logged := lg @ [NewAlertCreated 0, ImmediateAttention 0]\<rparr>"
proof -
  have bf: "toAlertData r (bruteForceDetection ''203.0.113.10'' recentSample) =
     \<lparr>adTitle = ''Brute Force Attack Detected from 203.0.113.10'',
      adSourceIp = Some ''203.0.113.10'', adConfidence = 90,
      adRelatedLogs = Some [16, 15, 14, 13, 12, 11],
      adAttackVector = ''Authentication brute force'',
      adAffectedAssets = [''Authentication System''], adType = rtype r,
      adSeverity = rseverity r, adDetectionMethod = ''signature''\<rparr>" for r
    by (simp add: toAlertData_def bruteForceDetection_def lId_failedLoginLog recentSample_def)
  show ?thesis
    by (simp add: runRules_def sampleRules_def detectionRules_def executeDetectionRule_def
        bruteForce_sample noFindings_def bf createAlert_sample)
qed

lemma cycle_sample:
  "runDetectionCycle alertThresholds 2000 sampleRules sampleState =
     \<lparr>logCollection = map (\<lambda>i. (failedLoginLog i)\<lparr>lProcessed := True\<rparr>) [11, 12, 13, 14, 15, 16],
      alertCollection = [sampleAlert], nextOid = 1,
      logged = [CycleStarted, NewAlertCreated 0, ImmediateAttention 0, CycleCompleted]\<rparr>"
proof -
  have f: "fetchRecentLogs alertThresholds 2000 (sampleState\<lparr>logged := [CycleStarted]\<rparr>) =
             recentSample"
    using fetch_sample by (simp add: fetchRecentLogs_def)
  have l: "logged sampleState = []" by (simp add: sampleState_def)
  show ?thesis
    unfolding runDetectionCycle_def Let_def l append_Nil f runRules_sample
    by (simp add: markProcessed_def sampleState_def failedLoginLog_def recentSample_def)
qed


lemma fetch_sample_logged:
  "fetchRecentLogs alertThresholds 2000 (sampleState\<lparr>logged := lg\<rparr>) = recentSample"
  using fetch_sample by (simp add: fetchRecentLogs_def)


theorem rule_failure_is_contained_witness:
  "enabled brokenRule
   \<and> condition brokenRule (fetchRecentLogs alertThresholds 2000 sampleState) =
       Inl (RuleEvaluationError ''TypeError'')
   \<and> logged (runDetectionCycle alertThresholds 2000 ([] @ brokenRule # sampleRules) sampleState) =
       [CycleStarted, RuleError ''Broken Rule'', NewAlertCreated 0, ImmediateAttention 0,
        CycleCompleted]
   \<and> alertCollection
         (runDetectionCycle alertThresholds 2000 ([] @ brokenRule # sampleRules) sampleState) =
       [sampleAlert]
   \<and> map lProcessed (logCollection
         (runDetectionCycle alertThresholds 2000 ([] @ brokenRule # sampleRules) sampleState)) =
       [True, True, True, True, True, True]"
proof -
  have en: "enabled brokenRule" by (simp add: brokenRule_def)
  have thr: "condition brokenRule (fetchRecentLogs alertThresholds 2000 sampleState) =
       Inl (RuleEvaluationError ''TypeError'')" by (simp add: brokenRule_def)
  have nm: "name brokenRule = ''Broken Rule''" by (simp add: brokenRule_def)
  have lg: "logged sampleState = []" by (simp add: sampleState_def)
  have r0: "runRules th now [] ls s = s" for th now ls s by (simp add: runRules_def)
  have upd: "sampleState\<lparr>logged := a, logged := b\<rparr> = sampleState\<lparr>logged := b\<rparr>" for a b
    by simp
  have "(let recentLogs = fetchRecentLogs alertThresholds 2000 sampleState;
             s1 = runRules alertThresholds 2000 [] recentLogs
                    (sampleState\<lparr>logged := logged sampleState @ [CycleStarted]\<rparr>);
             s2 = runRules alertThresholds 2000 sampleRules recentLogs
                    (s1\<lparr>logged := logged s1 @ [RuleError (name brokenRule)]\<rparr>);
             s3 = markProcessed (map lId recentLogs) s2
         in s3\<lparr>logged := logged s3 @ [CycleCompleted]\<rparr>) =
     \<lparr>logCollection = map (\<lambda>i. (failedLoginLog i)\<lparr>lProcessed := True\<rparr>) [11, 12, 13, 14, 15, 16],
      alertCollection = [sampleAlert], nextOid = 1,
      logged = [CycleStarted, RuleError ''Broken Rule'', NewAlertCreated 0, ImmediateAttention 0,
                CycleCompleted]\<rparr>"
    unfolding Let_def fetch_sample r0 lg append_Nil nm
    apply (simp add: runRules_sample)
    apply (simp add: markProcessed_def sampleState_def failedLoginLog_def recentSample_def)
    done
  with rule_failure_is_contained [OF en thr, of "[]" sampleRules]
  have "runDetectionCycle alertThresholds 2000 ([] @ brokenRule # sampleRules) sampleState =
     \<lparr>logCollection = map (\<lambda>i. (failedLoginLog i)\<lparr>lProcessed := True\<rparr>) [11, 12, 13, 14, 15, 16],
      alertCollection = [sampleAlert], nextOid = 1,
      logged = [CycleStarted, RuleError ''Broken Rule'', NewAlertCreated 0, ImmediateAttention 0,
                CycleCompleted]\<rparr>"
    by (simp only:)
  with en thr show ?thesis by simp
qed

theorem detection_alert_severity_fixed_witness:
  "sampleAlert \<in> set (drop (length (alertCollection sampleState))
       (alertCollection (runDetectionCycle alertThresholds 2000
          (detectionRules alertThresholds noFindings noFindings noFindings noFindings) sampleState)))
   \<and> atype sampleAlert = ''brute_force'' \<and> severity sampleAlert = High
   \<and> ImmediateAttention (alertOid sampleAlert)
        \<in> set (logged (runDetectionCycle alertThresholds 2000
          (detectionRules alertThresholds noFindings noFindings noFindings noFindings) sampleState))"
proof -
  have m: "sampleAlert \<in> set (drop (length (alertCollection sampleState))
       (alertCollection (runDetectionCycle alertThresholds 2000
          (detectionRules alertThresholds noFindings noFindings noFindings noFindings) sampleState)))"
    using cycle_sample by (simp add: sampleRules_def sampleState_def)
  have t: "atype sampleAlert = ''brute_force''" by (simp add: sampleAlert_def)
  from detection_alert_severity_fixed [OF m] t m show ?thesis
    by (simp add: ruleSeverityOf_def)
qed

subsection \<open>Brute-force rule within a cycle\<close>

lemma length_filter_fetchRecentLogs:
  "length (filter P (fetchRecentLogs th now st)) =
     length (filter (\<lambda>l. now - timeWindow th \<le> lTimestamp l \<and> \<not> lProcessed l \<and> P l)
               (logCollection st))"
proof -
  have "filter P (fetchRecentLogs th now st) =
      sort_key (\<lambda>l. - lTimestamp l)
        (filter (\<lambda>l. now - timeWindow th \<le> lTimestamp l \<and> \<not> lProcessed l \<and> P l)
           (logCollection st))"
    unfolding fetchRecentLogs_def
    by (simp add: filter_sort conj_commute conj_left_commute cong: conj_cong)
  then show ?thesis by simp
qed

text \<open>
  C4, as the code has it. A detection cycle at time \<open>now\<close> hands every rule the batch
  \<^verbatim>\<open>fetchRecentLogs\<close> returns: the stored events that lie within the time window and that no
  earlier cycle has marked processed. Let \<open>n\<close> be the number of events of that batch that
  are security events whose lower-cased message contains \<^verbatim>\<open>failed\<close> and whose source IP is
  the nonempty \<open>ip\<close>. When \<open>n\<close> reaches the \<^verbatim>\<open>bruteForceAttempts\<close> threshold (5 by default) the
  brute-force rule returns exactly one detection for \<open>ip\<close>, with confidence
  \<open>min 95 (60 + 5 n)\<close>; below the threshold it returns none. (An address with no such event
  has no group, so \<open>0 < n\<close> is part of the first case; it only matters for a threshold
  of 0.)
\<close>

theorem detectBruteForce_in_cycle:
  assumes "n = length (filter (\<lambda>l. now - timeWindow th \<le> lTimestamp l \<and> \<not> lProcessed l \<and>
                                isFailedLogin l \<and> lSourceIp l = Some ip) (logCollection st))"
  shows "(bruteForceAttempts th \<le> n \<and> 0 < n \<longrightarrow>
            (\<exists>d. filter (\<lambda>d. dSourceIp d = Some ip)
                    (detectBruteForce th (fetchRecentLogs th now st)) = [d] \<and>
                 dConfidence d = min 95 (60 + 5 * real n)))
       \<and> (n < bruteForceAttempts th \<longrightarrow>
            filter (\<lambda>d. dSourceIp d = Some ip)
              (detectBruteForce th (fetchRecentLogs th now st)) = [])"
proof -
  have "n = length (filter (\<lambda>l. isFailedLogin l \<and> lSourceIp l = Some ip)
                     (fetchRecentLogs th now st))"
    unfolding assms length_filter_fetchRecentLogs ..
  then show ?thesis by (rule detectBruteForce_group_count)
qed

theorem detectBruteForce_in_cycle_witness:
  "(\<exists>d. filter (\<lambda>d. dSourceIp d = Some ''203.0.113.10'')
             (detectBruteForce alertThresholds (fetchRecentLogs alertThresholds 2000 sampleState)) = [d]
           \<and> dConfidence d = 90)
   \<and> filter (\<lambda>d. dSourceIp d = Some ''203.0.113.10'')
        (detectBruteForce alertThresholds (fetchRecentLogs alertThresholds 301014 sampleState)) = []"
proof -
  have ip: "lSourceIp (failedLoginLog i) = Some ''203.0.113.10''" for i
    by (simp add: failedLoginLog_def)
  have ts: "lTimestamp (failedLoginLog i) = 1000 + int i" for i
    by (simp add: failedLoginLog_def)
  have pr: "lProcessed (failedLoginLog i) = False" for i
    by (simp add: failedLoginLog_def)
  have six: "6 = length (filter (\<lambda>l. 2000 - timeWindow alertThresholds \<le> lTimestamp l \<and>
                \<not> lProcessed l \<and> isFailedLogin l \<and> lSourceIp l = Some ''203.0.113.10'')
              (logCollection sampleState))"
    by (simp add: sampleState_def isFailedLogin_failedLoginLog ip ts pr alertThresholds_def)
  have three: "3 = length (filter (\<lambda>l. 301014 - timeWindow alertThresholds \<le> lTimestamp l \<and>
                \<not> lProcessed l \<and> isFailedLogin l \<and> lSourceIp l = Some ''203.0.113.10'')
              (logCollection sampleState))"
    by (simp add: sampleState_def isFailedLogin_failedLoginLog ip ts pr alertThresholds_def)
  show ?thesis
    using detectBruteForce_in_cycle [OF six] detectBruteForce_in_cycle [OF three]
    by (auto simp add: alertThresholds_def)
qed

text \<open>
  The specification counts the events within the window. The code counts those of them
  that are still unprocessed: six failed logins from one address lie within the window of
  the cycle at time 2000, an earlier cycle has marked one of them processed, and the rule
  reports the address with confidence 85 (five events), not with \<open>min 95 (60 + 5 * 6) = 90\<close>.
\<close>

lemma fetch_partly:
  "fetchRecentLogs alertThresholds 2000 partlyProcessedState = recentPartly"
  by (simp add: fetchRecentLogs_def partlyProcessedState_def alertThresholds_def
        failedLoginLog_def recentPartly_def)

lemma group_partly:
  "fold groupFailedAttempt recentPartly [] = [(''203.0.113.10'', recentPartly)]"
proof -
  have ip: "lSourceIp (failedLoginLog i) = Some ''203.0.113.10''" for i
    by (simp add: failedLoginLog_def)
  show ?thesis
    by (simp add: recentPartly_def groupFailedAttempt_def isFailedLogin_failedLoginLog ip
          mapHas_def mapGet_def)
qed

lemma bruteForce_partly:
  "detectBruteForce alertThresholds recentPartly =
     [bruteForceDetection ''203.0.113.10'' recentPartly]"
  unfolding detectBruteForce_def group_partly
  by (simp add: alertThresholds_def recentPartly_def)

lemma isFailedLogin_processed:
  "isFailedLogin (l\<lparr>lProcessed := True\<rparr>) = isFailedLogin l"
  by (simp add: isFailedLogin_def)

theorem detectBruteForce_processed_counterexample:
  "length (filter (\<lambda>l. 2000 - timeWindow alertThresholds \<le> lTimestamp l \<and>
                       isFailedLogin l \<and> lSourceIp l = Some ''203.0.113.10'')
             (logCollection partlyProcessedState)) = 6
   \<and> map dSourceIp (detectBruteForce alertThresholds
                       (fetchRecentLogs alertThresholds 2000 partlyProcessedState)) =
       [Some ''203.0.113.10'']
   \<and> map dConfidence (detectBruteForce alertThresholds
                         (fetchRecentLogs alertThresholds 2000 partlyProcessedState)) = [85]
   \<and> min (95 :: real) (60 + 5 * 6) \<noteq> 85"
proof -
  have ip: "lSourceIp (failedLoginLog i) = Some ''203.0.113.10''" for i
    by (simp add: failedLoginLog_def)
  have ts: "lTimestamp (failedLoginLog i) = 1000 + int i" for i
    by (simp add: failedLoginLog_def)
  have n: "length (filter (\<lambda>l. 2000 - timeWindow alertThresholds \<le> lTimestamp l \<and>
                       isFailedLogin l \<and> lSourceIp l = Some ''203.0.113.10'')
             (logCollection partlyProcessedState)) = 6"
    by (simp add: partlyProcessedState_def isFailedLogin_processed isFailedLogin_failedLoginLog
          ip ts alertThresholds_def)
  show ?thesis
    unfolding fetch_partly bruteForce_partly
    using n by (simp add: bruteForceDetection_def recentPartly_def)
qed

subsection \<open>Status transitions\<close>

text \<open>
  C7, as the code has it. Every \<^verbatim>\<open>updateStatus\<close> call sets the status and appends one
  ``Status Changed'' timeline entry. A transition to resolved sets \<^verbatim>\<open>resolvedAt\<close> and
  \<^verbatim>\<open>resolvedBy\<close>; a transition to any other status, false positive included, leaves
  both fields as they were.
\<close>

theorem updateStatus_timeline_and_resolution:
  "status (updateStatus now s u n a) = s
   \<and> (\<exists>e. timeline (updateStatus now s u n a) = timeline a @ [e] \<and>
            event e = ''Status Changed'' \<and> user e = Some u \<and> timestamp e = now)
   \<and> (s = Resolved \<longrightarrow>
         resolvedAt (updateStatus now s u n a) = Some now \<and>
         resolvedBy (updateStatus now s u n a) = Some u)
   \<and> (s \<noteq> Resolved \<longrightarrow>
         resolvedAt (updateStatus now s u n a) = resolvedAt a \<and>
         resolvedBy (updateStatus now s u n a) = resolvedBy a)"
  by (simp add: updateStatus_def save_def Let_def)

theorem updateStatus_timeline_and_resolution_witness:
  "resolvedAt (updateStatus 5000 Resolved 7 None sampleAlert) = Some 5000
   \<and> resolvedBy (updateStatus 5000 Resolved 7 None sampleAlert) = Some 7
   \<and> resolvedAt (updateStatus 5000 Investigating 7 None sampleAlert) = None
   \<and> length (timeline (updateStatus 5000 Investigating 7 None sampleAlert)) = 1"
  using updateStatus_timeline_and_resolution [of 5000 Resolved 7 None sampleAlert]
    updateStatus_timeline_and_resolution [of 5000 Investigating 7 None sampleAlert]
  by (auto simp: sampleAlert_def)

text \<open>
  The specification extends the last point to false positives, which the code does not
  do: the alert below is active with no
  resolution data, and after \<^verbatim>\<open>updateStatus('false_positive', 7)\<close> it is a false positive
  whose \<^verbatim>\<open>resolvedAt\<close> and \<^verbatim>\<open>resolvedBy\<close> are still unset.
\<close>

theorem updateStatus_false_positive_counterexample:
  "status (updateStatus 5000 FalsePositive 7 None sampleAlert) = FalsePositive
   \<and> resolvedAt (updateStatus 5000 FalsePositive 7 None sampleAlert) = None
   \<and> resolvedBy (updateStatus 5000 FalsePositive 7 None sampleAlert) = None"
  by (simp add: updateStatus_def save_def Let_def sampleAlert_def)

subsection \<open>Correlated alerts\<close>

text \<open>
  C2, as the code has it. When an active or investigating alert with the candidate's
  correlationId exists, \<^verbatim>\<open>createCorrelatedAlert\<close> logs that the correlation exists and
  returns that alert: the collection is unchanged, so no second alert is created and the
  existing alert, its confidence included, is left as it was.
\<close>

theorem createCorrelatedAlert_existing:
  assumes "findOneIndex (isSameCorrelation c) (alertCollection st) = Some i"
  shows "alertCollection (fst (createCorrelatedAlert now c rule st)) = alertCollection st
       \<and> snd (createCorrelatedAlert now c rule st) = Inr (alertCollection st ! i)
       \<and> map_sum id confidence (snd (createCorrelatedAlert now c rule st)) =
           Inr (confidence (alertCollection st ! i))
       \<and> logged (fst (createCorrelatedAlert now c rule st)) =
           logged st @ [CorrelationAlreadyExists (cCorrelationId c)]"
  using assms by (simp add: createCorrelatedAlert_def)

lemma findOneIndex_chain:
  "findOneIndex (isSameCorrelation chainCandidate) (alertCollection chainState) = Some 0"
  by (simp add: isSameCorrelation_def chainCandidate_def chainState_def chainAlert_def)

theorem createCorrelatedAlert_existing_witness:
  "findOneIndex (isSameCorrelation chainCandidate) (alertCollection chainState) = Some 0
   \<and> alertCollection (fst (createCorrelatedAlert 2000 chainCandidate chainRule chainState)) =
       [chainAlert]
   \<and> snd (createCorrelatedAlert 2000 chainCandidate chainRule chainState) = Inr chainAlert"
  using createCorrelatedAlert_existing [OF findOneIndex_chain, of 2000 chainRule] findOneIndex_chain
  by (simp add: chainState_def)

text \<open>
  The specification has the confidence raised to the maximum, which the code does not
  do: the stored alert has confidence 60, the
  candidate with the same correlationId has 95, and after the call the one stored alert
  still has 60, not the maximum 95.
\<close>

theorem createCorrelatedAlert_confidence_counterexample:
  "isSameCorrelation chainCandidate chainAlert
   \<and> cConfidence chainCandidate = Some 95
   \<and> map confidence
        (alertCollection (fst (createCorrelatedAlert 2000 chainCandidate chainRule chainState))) =
       [60]
   \<and> max (60 :: real) 95 \<noteq> 60"
  by (simp add: createCorrelatedAlert_def isSameCorrelation_def chainCandidate_def
        chainState_def chainAlert_def)

text \<open>
  Without such an alert the new document is validated, and a rule of the engine's own
  table never passes: its type is not one the schema admits, so the call fails with the
  validation error, logs it, and stores nothing.
\<close>

lemma createCorrelatedAlert_rejects_engine_rules:
  assumes "findOneIndex (isSameCorrelation c) (alertCollection st) = None"
      and "crType rule \<in> set correlationRuleTypes"
  shows "snd (createCorrelatedAlert now c rule st) = Inl ValidationError
       \<and> alertCollection (fst (createCorrelatedAlert now c rule st)) = alertCollection st
       \<and> logged (fst (createCorrelatedAlert now c rule st)) =
           logged st @ [ErrorCreatingCorrelatedAlert]"
proof -
  have "atype (newCorrelatedAlert (nextOid st) now c rule) \<notin> set alertTypes"
    using assms(2) by (auto simp add: newCorrelatedAlert_def correlationRuleTypes_def alertTypes_def)
  then have "\<not> schemaValidates (newCorrelatedAlert (nextOid st) now c rule)"
    by (simp add: schemaValidates_def)
  then show ?thesis
    using assms(1) by (simp add: createCorrelatedAlert_def Let_def)
qed

subsection \<open>Deduplication\<close>

lemma length_filter_update:
  "i < length xs \<Longrightarrow> P e = P (xs ! i) \<Longrightarrow> length (filter P (xs[i := e])) = length (filter P xs)"
proof (induction xs arbitrary: i)
  case Nil
  then show ?case by simp
next
  case (Cons x xs)
  then show ?case by (cases i) auto
qed

lemma isSimilarAlert_key:
  "isSimilarAlert th now ad a \<longleftrightarrow>
     (alertKey a = (adType ad, adSourceIp ad) \<and> (status a = Active \<or> status a = Investigating) \<and>
      createdAt a \<ge> now - timeWindow th)"
  by (auto simp: isSimilarAlert_def alertKey_def)

lemma count_compose:
  fixes a b c :: nat
  assumes "b = (if K1 \<and> a = 0 then 1 else a)" and "c = (if K2 \<and> b = 0 then 1 else b)"
  shows "c = (if (K1 \<or> K2) \<and> a = 0 then 1 else a)"
  using assms by auto

lemma liveCount_logged [simp]:
  "liveCount th now k (st\<lparr>logged := x\<rparr>) = liveCount th now k st"
  by (simp add: liveCount_def)

lemma liveCount_createAlert:
  assumes w: "0 \<le> timeWindow th"
  shows "liveCount th now k (fst (createAlert th now ad st)) =
     (if k = (adType ad, adSourceIp ad) \<and> liveCount th now k st = 0 then 1
      else liveCount th now k st)"
proof (cases "findOneIndex (isSimilarAlert th now ad) (alertCollection st)")
  case None
  then have "\<forall>a \<in> set (alertCollection st). \<not> isSimilarAlert th now ad a"
    by (simp add: findOneIndex_None)
  then have e: "liveCount th now (adType ad, adSourceIp ad) st = 0"
    by (auto simp: liveCount_def filter_empty_conv isSimilarAlert_key)
  show ?thesis
    unfolding createAlert_new [OF None]
    using w e by (auto simp: liveCount_def alertKey_def)
next
  case (Some i)
  let ?xs = "alertCollection st"
  let ?P = "\<lambda>a. alertKey a = k \<and> (status a = Active \<or> status a = Investigating) \<and>
                 createdAt a \<ge> now - timeWindow th"
  from findOneIndex_Some [OF Some]
  have i: "i < length ?xs" and sim: "isSimilarAlert th now ad (?xs ! i)" by simp_all
  have ac: "alertCollection (fst (createAlert th now ad st)) = ?xs[i := mergedAlert ad (?xs ! i)]"
    by (simp add: createAlert_merge [OF Some])
  have p: "?P (mergedAlert ad (?xs ! i)) = ?P (?xs ! i)" by (simp add: alertKey_def)
  have len: "liveCount th now k (fst (createAlert th now ad st)) = liveCount th now k st"
    unfolding liveCount_def ac by (rule length_filter_update [OF i p])
  have "?xs ! i \<in> set (filter (\<lambda>a. alertKey a = (adType ad, adSourceIp ad) \<and>
            (status a = Active \<or> status a = Investigating) \<and>
            createdAt a \<ge> now - timeWindow th) ?xs)"
    using i sim by (simp add: isSimilarAlert_key)
  then have "liveCount th now (adType ad, adSourceIp ad) st \<noteq> 0"
    unfolding liveCount_def by (rule less_imp_neq [THEN not_sym, OF length_pos_if_in_set])
  with len show ?thesis by auto
qed

lemma liveCount_fold_createAlert:
  assumes w: "0 \<le> timeWindow th"
  shows "liveCount th now k (fold (\<lambda>d s. fst (createAlert th now (toAlertData r d) s)) ds st) =
     (if k \<in> set (map (\<lambda>d. (rtype r, dSourceIp d)) ds) \<and> liveCount th now k st = 0 then 1
      else liveCount th now k st)"
proof (induction ds arbitrary: st)
  case Nil
  then show ?case by simp
next
  case (Cons d ds)
  let ?s = "fst (createAlert th now (toAlertData r d) st)"
  have key: "(adType (toAlertData r d), adSourceIp (toAlertData r d)) = (rtype r, dSourceIp d)"
    by (simp add: toAlertData_def)
  have a: "liveCount th now k ?s =
     (if k = (rtype r, dSourceIp d) \<and> liveCount th now k st = 0 then 1 else liveCount th now k st)"
    using liveCount_createAlert [OF w, of now k "toAlertData r d" st] unfolding key .
  have b: "liveCount th now k (fold (\<lambda>d s. fst (createAlert th now (toAlertData r d) s)) ds ?s) =
     (if k \<in> set (map (\<lambda>d. (rtype r, dSourceIp d)) ds) \<and> liveCount th now k ?s = 0 then 1
      else liveCount th now k ?s)"
    by (rule Cons.IH)
  have m: "k \<in> set (map (\<lambda>d. (rtype r, dSourceIp d)) (d # ds)) \<longleftrightarrow>
      (k = (rtype r, dSourceIp d) \<or> k \<in> set (map (\<lambda>d. (rtype r, dSourceIp d)) ds))"
    by auto
  show ?case
    unfolding fold_simps m by (rule count_compose [OF a b])
qed

lemma liveCount_executeDetectionRule:
  assumes w: "0 \<le> timeWindow th"
  shows "liveCount th now k (executeDetectionRule th now r ls st) =
     (if k \<in> set (case condition r ls of Inl e \<Rightarrow> []
                   | Inr ds \<Rightarrow> map (\<lambda>d. (rtype r, dSourceIp d)) ds) \<and>
         liveCount th now k st = 0 then 1
      else liveCount th now k st)"
proof (cases "condition r ls")
  case (Inl e)
  then show ?thesis by (simp add: executeDetectionRule_def)
next
  case (Inr ds)
  with liveCount_fold_createAlert [OF w, of now k r ds st]
  show ?thesis by (simp add: executeDetectionRule_def)
qed

lemma liveCount_runRules:
  assumes w: "0 \<le> timeWindow th"
  shows "liveCount th now k (runRules th now rules ls st) =
     (if k \<in> set (detectionKeys rules ls) \<and> liveCount th now k st = 0 then 1
      else liveCount th now k st)"
proof (induction rules arbitrary: st)
  case Nil
  then show ?case by (simp add: runRules_def detectionKeys_def)
next
  case (Cons r rules)
  let ?s = "if enabled r then executeDetectionRule th now r ls st else st"
  let ?ks = "if enabled r then (case condition r ls of Inl e \<Rightarrow> []
                | Inr ds \<Rightarrow> map (\<lambda>d. (rtype r, dSourceIp d)) ds) else []"
  have a: "liveCount th now k ?s =
     (if k \<in> set ?ks \<and> liveCount th now k st = 0 then 1 else liveCount th now k st)"
  proof (cases "enabled r")
    case True
    show ?thesis
      using liveCount_executeDetectionRule [OF w, of now k r ls st]
      by (simp only: True if_True)
  next
    case False
    show ?thesis by (simp only: False if_False list.set empty_iff simp_thms)
  qed
  have b: "liveCount th now k (runRules th now rules ls ?s) =
     (if k \<in> set (detectionKeys rules ls) \<and> liveCount th now k ?s = 0 then 1
      else liveCount th now k ?s)"
    by (rule Cons.IH)
  have step: "runRules th now (r # rules) ls st = runRules th now rules ls ?s"
    by (rule runRules_Cons)
  have dk: "k \<in> set (detectionKeys (r # rules) ls) \<longleftrightarrow>
      (k \<in> set ?ks \<or> k \<in> set (detectionKeys rules ls))"
    unfolding detectionKeys_def by (simp only: list.map concat.simps set_append Un_iff)
  show ?case
    unfolding step dk by (rule count_compose [OF a b])
qed

lemma liveCount_runDetectionCycle:
  assumes w: "0 \<le> timeWindow th"
  shows "liveCount th now k (runDetectionCycle th now rules st) =
     (if k \<in> set (detectionKeys rules (fetchRecentLogs th now st)) \<and> liveCount th now k st = 0
      then 1 else liveCount th now k st)"
proof -
  let ?st0 = "st\<lparr>logged := logged st @ [CycleStarted]\<rparr>"
  have f: "fetchRecentLogs th now ?st0 = fetchRecentLogs th now st"
    by (simp add: fetchRecentLogs_def)
  have l: "liveCount th now k (runDetectionCycle th now rules st) =
      liveCount th now k (runRules th now rules (fetchRecentLogs th now st) ?st0)"
    by (simp add: runDetectionCycle_def Let_def f liveCount_def)
  show ?thesis
    unfolding l liveCount_runRules [OF w, of now k rules "fetchRecentLogs th now st" ?st0]
    by (simp only: liveCount_logged)
qed

lemma alertCollection_runRules_quiet:
  "detectionKeys rules ls = [] \<Longrightarrow>
     alertCollection (runRules th now rules ls st) = alertCollection st"
proof (induction rules arbitrary: st)
  case Nil
  then show ?case by (simp add: runRules_def)
next
  case (Cons r rules)
  let ?s = "if enabled r then executeDetectionRule th now r ls st else st"
  let ?ks = "if enabled r then (case condition r ls of Inl e \<Rightarrow> []
                | Inr ds \<Rightarrow> map (\<lambda>d. (rtype r, dSourceIp d)) ds) else []"
  have dk: "detectionKeys (r # rules) ls = ?ks @ detectionKeys rules ls"
    unfolding detectionKeys_def by (simp only: list.map concat.simps)
  from Cons.prems have k1: "?ks = []"
    unfolding dk by (simp only: append_is_Nil_conv)
  from Cons.prems have k2: "detectionKeys rules ls = []"
    unfolding dk by (simp only: append_is_Nil_conv)
  have s: "alertCollection ?s = alertCollection st"
  proof (cases "enabled r")
    case False
    then show ?thesis by simp
  next
    case True
    with k1 show ?thesis
      by (cases "condition r ls") (simp_all add: executeDetectionRule_def)
  qed
  have step: "runRules th now (r # rules) ls st = runRules th now rules ls ?s"
    by (rule runRules_Cons)
  show ?case unfolding step Cons.IH [OF k2] by (rule s)
qed

lemma alertCollection_runDetectionCycle_quiet:
  assumes "detectionKeys rules (fetchRecentLogs th now st) = []"
  shows "alertCollection (runDetectionCycle th now rules st) = alertCollection st"
proof -
  let ?st0 = "st\<lparr>logged := logged st @ [CycleStarted]\<rparr>"
  have f: "fetchRecentLogs th now ?st0 = fetchRecentLogs th now st"
    by (simp add: fetchRecentLogs_def)
  have "alertCollection (runDetectionCycle th now rules st) =
      alertCollection (runRules th now rules (fetchRecentLogs th now st) ?st0)"
    by (simp add: runDetectionCycle_def Let_def f)
  also have "\<dots> = alertCollection ?st0" by (rule alertCollection_runRules_quiet [OF assms])
  finally show ?thesis by simp
qed


lemma keyCount_logged [simp]:
  "keyCount k (st\<lparr>logged := x\<rparr>) = keyCount k st"
  by (simp add: keyCount_def)

lemma counts_createAlert:
  assumes w: "0 \<le> timeWindow th"
  shows "keyCount k (fst (createAlert th now ad st)) + liveCount th now k st =
         keyCount k st + liveCount th now k (fst (createAlert th now ad st))"
proof (cases "findOneIndex (isSimilarAlert th now ad) (alertCollection st)")
  case None
  show ?thesis
    unfolding createAlert_new [OF None]
    using w by (auto simp: liveCount_def keyCount_def alertKey_def)
next
  case (Some i)
  let ?xs = "alertCollection st"
  let ?P = "\<lambda>a. alertKey a = k \<and> (status a = Active \<or> status a = Investigating) \<and>
                 createdAt a \<ge> now - timeWindow th"
  let ?Q = "\<lambda>a. alertKey a = k"
  from findOneIndex_Some [OF Some] have i: "i < length ?xs" by simp
  have ac: "alertCollection (fst (createAlert th now ad st)) = ?xs[i := mergedAlert ad (?xs ! i)]"
    by (simp add: createAlert_merge [OF Some])
  have p: "?P (mergedAlert ad (?xs ! i)) = ?P (?xs ! i)" by (simp add: alertKey_def)
  have q: "?Q (mergedAlert ad (?xs ! i)) = ?Q (?xs ! i)" by (simp add: alertKey_def)
  have l: "liveCount th now k (fst (createAlert th now ad st)) = liveCount th now k st"
    unfolding liveCount_def ac by (rule length_filter_update [OF i p])
  have t: "keyCount k (fst (createAlert th now ad st)) = keyCount k st"
    unfolding keyCount_def ac by (rule length_filter_update [OF i q])
  show ?thesis unfolding l t ..
qed

lemma counts_trans:
  fixes t l t' l' t'' l'' :: nat
  assumes "t' + l = t + l'" and "t'' + l' = t' + l''"
  shows "t'' + l = t + l''"
  using assms by arith

lemma counts_fold_createAlert:
  assumes w: "0 \<le> timeWindow th"
  shows "keyCount k (fold (\<lambda>d s. fst (createAlert th now (toAlertData r d) s)) ds st) +
           liveCount th now k st =
         keyCount k st +
           liveCount th now k (fold (\<lambda>d s. fst (createAlert th now (toAlertData r d) s)) ds st)"
proof (induction ds arbitrary: st)
  case Nil
  then show ?case by simp
next
  case (Cons d ds)
  show ?case
    unfolding fold_simps
    by (rule counts_trans [OF counts_createAlert [OF w] Cons.IH])
qed

lemma counts_executeDetectionRule:
  assumes w: "0 \<le> timeWindow th"
  shows "keyCount k (executeDetectionRule th now r ls st) + liveCount th now k st =
         keyCount k st + liveCount th now k (executeDetectionRule th now r ls st)"
proof (cases "condition r ls")
  case (Inl e)
  then show ?thesis by (simp add: executeDetectionRule_def)
next
  case (Inr ds)
  with counts_fold_createAlert [OF w, of k now r ds st]
  show ?thesis by (simp add: executeDetectionRule_def)
qed

lemma counts_runRules:
  assumes w: "0 \<le> timeWindow th"
  shows "keyCount k (runRules th now rules ls st) + liveCount th now k st =
         keyCount k st + liveCount th now k (runRules th now rules ls st)"
proof (induction rules arbitrary: st)
  case Nil
  then show ?case by (simp add: runRules_def)
next
  case (Cons r rules)
  let ?s = "if enabled r then executeDetectionRule th now r ls st else st"
  have a: "keyCount k ?s + liveCount th now k st = keyCount k st + liveCount th now k ?s"
  proof (cases "enabled r")
    case True
    show ?thesis
      using counts_executeDetectionRule [OF w, of k now r ls st] by (simp only: True if_True)
  next
    case False
    show ?thesis by (simp only: False if_False)
  qed
  have step: "runRules th now (r # rules) ls st = runRules th now rules ls ?s"
    by (rule runRules_Cons)
  show ?case
    unfolding step by (rule counts_trans [OF a Cons.IH])
qed

lemma counts_runDetectionCycle:
  assumes w: "0 \<le> timeWindow th"
  shows "keyCount k (runDetectionCycle th now rules st) + liveCount th now k st =
         keyCount k st + liveCount th now k (runDetectionCycle th now rules st)"
proof -
  let ?st0 = "st\<lparr>logged := logged st @ [CycleStarted]\<rparr>"
  let ?s = "runRules th now rules (fetchRecentLogs th now st) ?st0"
  have f: "fetchRecentLogs th now ?st0 = fetchRecentLogs th now st"
    by (simp add: fetchRecentLogs_def)
  have l: "liveCount th now k (runDetectionCycle th now rules st) = liveCount th now k ?s"
    by (simp add: runDetectionCycle_def Let_def f liveCount_def)
  have t: "keyCount k (runDetectionCycle th now rules st) = keyCount k ?s"
    by (simp add: runDetectionCycle_def Let_def f keyCount_def)
  show ?thesis
    unfolding l t
    using counts_runRules [OF w, of k now rules "fetchRecentLogs th now st" ?st0]
    by (simp only: liveCount_logged keyCount_logged)
qed

lemma keyCount_runDetectionCycle:
  assumes w: "0 \<le> timeWindow th"
  shows "keyCount k (runDetectionCycle th now rules st) =
     keyCount k st +
       (if k \<in> set (detectionKeys rules (fetchRecentLogs th now st)) \<and> liveCount th now k st = 0
        then 1 else 0)"
  using counts_runDetectionCycle [OF w, of k now rules st]
    liveCount_runDetectionCycle [OF w, of now k rules st]
  by (simp split: if_splits)

lemma fetch_after_cycle:
  assumes "now1 \<le> now2"
  shows "fetchRecentLogs th now2 (runDetectionCycle th now1 rules st) = []"
proof -
  let ?ids = "map lId (fetchRecentLogs th now1 st)"
  let ?f = "\<lambda>l. if lId l \<in> set ?ids then l\<lparr>lProcessed := True\<rparr> else l"
  have f: "fetchRecentLogs th now1 (st\<lparr>logged := x\<rparr>) = fetchRecentLogs th now1 st" for x
    by (simp add: fetchRecentLogs_def)
  have lc: "logCollection (runDetectionCycle th now1 rules st) =
          (if ?ids = [] then logCollection st else map ?f (logCollection st))"
    by (simp add: runDetectionCycle_def Let_def f markProcessed_def)
  have "\<not> (now2 - timeWindow th \<le> lTimestamp l \<and> \<not> lProcessed l)"
    if "l \<in> set (logCollection (runDetectionCycle th now1 rules st))" for l
  proof
    assume c: "now2 - timeWindow th \<le> lTimestamp l \<and> \<not> lProcessed l"
    from that obtain l0 where l0: "l0 \<in> set (logCollection st)" and l: "l = l0 \<or> l = ?f l0"
      and nil: "?ids = [] \<longrightarrow> l = l0" and cons: "?ids \<noteq> [] \<longrightarrow> l = ?f l0"
      unfolding lc by (cases "?ids = []") auto
    show False
    proof (cases "l0 \<in> set (fetchRecentLogs th now1 st)")
      case True
      then have "lId l0 \<in> set ?ids" and "?ids \<noteq> []" by auto
      with cons c show False by simp
    next
      case False
      have "lTimestamp l = lTimestamp l0" using l by auto
      moreover have "\<not> lProcessed l0" using l c by (auto split: if_splits)
      ultimately have "l0 \<in> set (fetchRecentLogs th now1 st)"
        using l0 c assms by (simp add: set_fetchRecentLogs)
      with False show False by simp
    qed
  qed
  then show ?thesis
    by (simp add: fetchRecentLogs_def filter_empty_conv)
qed


text \<open>
  C1, as the code has it. When \<^verbatim>\<open>findOne\<close> returns an alert with the candidate's type and
  source IP that is active or investigating and was created within the time window,
  \<^verbatim>\<open>createAlert\<close> creates no alert: it stores that alert back with the larger of the two
  confidences and with the candidate's log ids pushed onto \<^verbatim>\<open>relatedLogs\<close> (as sets, the
  union), and leaves its timeline as it was. For two detection cycles, the second not
  before the first, over any store and for every key (type, sourceIp): the first cycle
  adds exactly one alert with that key when a rule reports the key and no live alert has
  it, and adds none otherwise, so that a key that had at most one live alert still has at
  most one, and a reported key has one. The second cycle finds the batch of the first
  already processed; it obeys the same law for what the rules report on the empty batch,
  and when they report nothing there it leaves the alert collection as the first cycle
  left it.
\<close>

theorem createAlert_merges_and_cycle_dedups:
  "(findOneIndex (isSimilarAlert th now ad) (alertCollection st) = Some i \<longrightarrow>
      alertCollection (fst (createAlert th now ad st)) =
        (alertCollection st)[i := snd (createAlert th now ad st)]
      \<and> length (alertCollection (fst (createAlert th now ad st))) = length (alertCollection st)
      \<and> confidence (snd (createAlert th now ad st)) =
          max (confidence (alertCollection st ! i)) (adConfidence ad)
      \<and> relatedLogs (snd (createAlert th now ad st)) =
          relatedLogs (alertCollection st ! i) @
            (case adRelatedLogs ad of None \<Rightarrow> [] | Some ids \<Rightarrow> ids)
      \<and> set (relatedLogs (snd (createAlert th now ad st))) =
          set (relatedLogs (alertCollection st ! i)) \<union>
            set (case adRelatedLogs ad of None \<Rightarrow> [] | Some ids \<Rightarrow> ids)
      \<and> timeline (snd (createAlert th now ad st)) = timeline (alertCollection st ! i))
   \<and> (0 \<le> timeWindow th \<and> now1 \<le> now2 \<longrightarrow>
      keyCount k (runDetectionCycle th now1 rules st0) =
        keyCount k st0 +
          (if k \<in> set (detectionKeys rules (fetchRecentLogs th now1 st0)) \<and>
              liveCount th now1 k st0 = 0 then 1 else 0)
      \<and> liveCount th now1 k (runDetectionCycle th now1 rules st0) =
          (if k \<in> set (detectionKeys rules (fetchRecentLogs th now1 st0)) \<and>
              liveCount th now1 k st0 = 0 then 1 else liveCount th now1 k st0)
      \<and> fetchRecentLogs th now2 (runDetectionCycle th now1 rules st0) = []
      \<and> keyCount k (runDetectionCycle th now2 rules (runDetectionCycle th now1 rules st0)) =
          keyCount k (runDetectionCycle th now1 rules st0) +
            (if k \<in> set (detectionKeys rules []) \<and>
                liveCount th now2 k (runDetectionCycle th now1 rules st0) = 0 then 1 else 0)
      \<and> liveCount th now2 k (runDetectionCycle th now2 rules (runDetectionCycle th now1 rules st0)) =
          (if k \<in> set (detectionKeys rules []) \<and>
              liveCount th now2 k (runDetectionCycle th now1 rules st0) = 0 then 1
           else liveCount th now2 k (runDetectionCycle th now1 rules st0))
      \<and> (detectionKeys rules [] = [] \<longrightarrow>
           alertCollection (runDetectionCycle th now2 rules (runDetectionCycle th now1 rules st0)) =
           alertCollection (runDetectionCycle th now1 rules st0)))"
proof (intro conjI impI)
  assume f: "findOneIndex (isSimilarAlert th now ad) (alertCollection st) = Some i"
  note m = createAlert_merge [OF f]
  show "alertCollection (fst (createAlert th now ad st)) =
        (alertCollection st)[i := snd (createAlert th now ad st)]"
    by (simp add: m)
  show "length (alertCollection (fst (createAlert th now ad st))) = length (alertCollection st)"
    by (simp add: m)
  show "confidence (snd (createAlert th now ad st)) =
          max (confidence (alertCollection st ! i)) (adConfidence ad)"
    by (simp add: m)
  show r: "relatedLogs (snd (createAlert th now ad st)) =
          relatedLogs (alertCollection st ! i) @
            (case adRelatedLogs ad of None \<Rightarrow> [] | Some ids \<Rightarrow> ids)"
    by (simp add: m mergedAlert_def save_def)
  show "set (relatedLogs (snd (createAlert th now ad st))) =
          set (relatedLogs (alertCollection st ! i)) \<union>
            set (case adRelatedLogs ad of None \<Rightarrow> [] | Some ids \<Rightarrow> ids)"
    unfolding r by simp
  show "timeline (snd (createAlert th now ad st)) = timeline (alertCollection st ! i)"
    by (simp add: m)
next
  assume h: "0 \<le> timeWindow th \<and> now1 \<le> now2"
  let ?st1 = "runDetectionCycle th now1 rules st0"
  from h have w: "0 \<le> timeWindow th" and le: "now1 \<le> now2" by simp_all
  show "keyCount k ?st1 =
        keyCount k st0 +
          (if k \<in> set (detectionKeys rules (fetchRecentLogs th now1 st0)) \<and>
              liveCount th now1 k st0 = 0 then 1 else 0)"
    by (rule keyCount_runDetectionCycle [OF w])
  show "liveCount th now1 k ?st1 =
          (if k \<in> set (detectionKeys rules (fetchRecentLogs th now1 st0)) \<and>
              liveCount th now1 k st0 = 0 then 1 else liveCount th now1 k st0)"
    by (rule liveCount_runDetectionCycle [OF w])
  show e: "fetchRecentLogs th now2 ?st1 = []" by (rule fetch_after_cycle [OF le])
  show "keyCount k (runDetectionCycle th now2 rules ?st1) =
          keyCount k ?st1 +
            (if k \<in> set (detectionKeys rules []) \<and> liveCount th now2 k ?st1 = 0 then 1 else 0)"
    using keyCount_runDetectionCycle [OF w, of k now2 rules ?st1] unfolding e .
  show "liveCount th now2 k (runDetectionCycle th now2 rules ?st1) =
          (if k \<in> set (detectionKeys rules []) \<and> liveCount th now2 k ?st1 = 0 then 1
           else liveCount th now2 k ?st1)"
    using liveCount_runDetectionCycle [OF w, of now2 k rules ?st1] unfolding e .
next
  assume h: "0 \<le> timeWindow th \<and> now1 \<le> now2" and q: "detectionKeys rules [] = []"
  let ?st1 = "runDetectionCycle th now1 rules st0"
  from h have le: "now1 \<le> now2" by simp
  have e: "fetchRecentLogs th now2 ?st1 = []" by (rule fetch_after_cycle [OF le])
  show "alertCollection (runDetectionCycle th now2 rules ?st1) = alertCollection ?st1"
    by (rule alertCollection_runDetectionCycle_quiet) (simp only: e q)
qed


lemma findOneIndex_merge:
  "findOneIndex (isSimilarAlert alertThresholds 2030 mergeCandidate) (alertCollection mergeState)
     = Some 0"
  by (simp add: isSimilarAlert_def mergeCandidate_def mergeState_def sampleAlert_def
        alertThresholds_def)

lemma detectionKeys_sample:
  "detectionKeys sampleRules recentSample = [(''brute_force'', Some ''203.0.113.10'')]"
  unfolding detectionKeys_def sampleRules_def detectionRules_def
  by (simp add: bruteForce_sample noFindings_def bruteForceDetection_def)

lemma detectionKeys_sample_empty: "detectionKeys sampleRules [] = []"
  unfolding detectionKeys_def sampleRules_def detectionRules_def
  by (simp add: noFindings_def detectBruteForce_def)

theorem createAlert_merges_and_cycle_dedups_witness:
  "findOneIndex (isSimilarAlert alertThresholds 2030 mergeCandidate) (alertCollection mergeState)
     = Some 0
   \<and> length (alertCollection (fst (createAlert alertThresholds 2030 mergeCandidate mergeState))) = 1
   \<and> confidence (snd (createAlert alertThresholds 2030 mergeCandidate mergeState)) = 95
   \<and> relatedLogs (snd (createAlert alertThresholds 2030 mergeCandidate mergeState)) =
       [16, 15, 14, 13, 12, 11, 17, 18, 19, 20, 21, 22, 23]
   \<and> 0 \<le> timeWindow alertThresholds \<and> (2000 :: int) \<le> 2030
   \<and> keyCount (''brute_force'', Some ''203.0.113.10'')
        (runDetectionCycle alertThresholds 2000 sampleRules sampleState) = 1
   \<and> liveCount alertThresholds 2000 (''brute_force'', Some ''203.0.113.10'')
        (runDetectionCycle alertThresholds 2000 sampleRules sampleState) = 1
   \<and> keyCount (''brute_force'', Some ''203.0.113.10'')
        (runDetectionCycle alertThresholds 2030 sampleRules
           (runDetectionCycle alertThresholds 2000 sampleRules sampleState)) = 1
   \<and> detectionKeys sampleRules [] = []
   \<and> alertCollection (runDetectionCycle alertThresholds 2030 sampleRules
           (runDetectionCycle alertThresholds 2000 sampleRules sampleState)) =
       alertCollection (runDetectionCycle alertThresholds 2000 sampleRules sampleState)"
proof -
  let ?k = "(''brute_force'', Some ''203.0.113.10'')"
  let ?st1 = "runDetectionCycle alertThresholds 2000 sampleRules sampleState"
  let ?st2 = "runDetectionCycle alertThresholds 2030 sampleRules ?st1"
  have h: "0 \<le> timeWindow alertThresholds \<and> (2000 :: int) \<le> 2030"
    by (simp add: alertThresholds_def)
  note t = createAlert_merges_and_cycle_dedups
    [of alertThresholds 2030 mergeCandidate mergeState 0 2000 2030 ?k sampleRules sampleState]
  from t findOneIndex_merge
  have a: "length (alertCollection (fst (createAlert alertThresholds 2030 mergeCandidate mergeState)))
        = length (alertCollection mergeState)"
    and b: "confidence (snd (createAlert alertThresholds 2030 mergeCandidate mergeState)) =
        max (confidence (alertCollection mergeState ! 0)) (adConfidence mergeCandidate)"
    and c: "relatedLogs (snd (createAlert alertThresholds 2030 mergeCandidate mergeState)) =
          relatedLogs (alertCollection mergeState ! 0) @
            (case adRelatedLogs mergeCandidate of None \<Rightarrow> [] | Some ids \<Rightarrow> ids)"
    by blast+
  have dk1: "detectionKeys sampleRules (fetchRecentLogs alertThresholds 2000 sampleState) = [?k]"
    by (simp add: fetch_sample detectionKeys_sample)
  have k0: "keyCount ?k sampleState = 0" by (simp add: keyCount_def sampleState_def)
  have l0: "liveCount alertThresholds 2000 ?k sampleState = 0"
    by (simp add: liveCount_def sampleState_def)
  from t h
  have d: "keyCount ?k ?st1 =
        keyCount ?k sampleState +
          (if ?k \<in> set (detectionKeys sampleRules (fetchRecentLogs alertThresholds 2000 sampleState)) \<and>
              liveCount alertThresholds 2000 ?k sampleState = 0 then 1 else 0)"
    and e: "liveCount alertThresholds 2000 ?k ?st1 =
          (if ?k \<in> set (detectionKeys sampleRules (fetchRecentLogs alertThresholds 2000 sampleState)) \<and>
              liveCount alertThresholds 2000 ?k sampleState = 0 then 1
           else liveCount alertThresholds 2000 ?k sampleState)"
    and f: "keyCount ?k ?st2 =
          keyCount ?k ?st1 +
            (if ?k \<in> set (detectionKeys sampleRules []) \<and>
                liveCount alertThresholds 2030 ?k ?st1 = 0 then 1 else 0)"
    and g: "detectionKeys sampleRules [] = [] \<longrightarrow> alertCollection ?st2 = alertCollection ?st1"
    by blast+
  have d': "keyCount ?k ?st1 = 1" unfolding d dk1 k0 l0 by simp
  have e': "liveCount alertThresholds 2000 ?k ?st1 = 1" unfolding e dk1 l0 by simp
  have f': "keyCount ?k ?st2 = 1" unfolding f d' detectionKeys_sample_empty by simp
  from g have g': "alertCollection ?st2 = alertCollection ?st1"
    by (simp only: detectionKeys_sample_empty simp_thms)
  have a': "length (alertCollection mergeState) = 1"
    and b': "max (confidence (alertCollection mergeState ! 0)) (adConfidence mergeCandidate) = 95"
    and c': "relatedLogs (alertCollection mergeState ! 0) @
            (case adRelatedLogs mergeCandidate of None \<Rightarrow> [] | Some ids \<Rightarrow> ids) =
        [16, 15, 14, 13, 12, 11, 17, 18, 19, 20, 21, 22, 23]"
    by (simp_all add: mergeState_def mergeCandidate_def sampleAlert_def)
  show ?thesis
    using findOneIndex_merge h d' e' f' g' detectionKeys_sample_empty
    unfolding a b c a' b' c' by (simp only: simp_thms)
qed

text \<open>
  The specification also has a ``merged'' timeline entry appended, which the code does
  not do. The stored alert below
  matches the candidate, its timeline is empty, and after the merge the timeline of the
  one stored alert is still empty.
\<close>

theorem createAlert_merge_timeline_counterexample:
  "findOneIndex (isSimilarAlert alertThresholds 2030 mergeCandidate) (alertCollection mergeState)
     = Some 0
   \<and> timeline sampleAlert = []
   \<and> map timeline (alertCollection (fst (createAlert alertThresholds 2030 mergeCandidate mergeState)))
       = [[]]"
proof -
  note m = createAlert_merge [OF findOneIndex_merge]
  have "map timeline
          (alertCollection (fst (createAlert alertThresholds 2030 mergeCandidate mergeState)))
        = [[]]"
    unfolding m by (simp add: mergeState_def sampleAlert_def)
  moreover have "timeline sampleAlert = []" by (simp add: sampleAlert_def)
  ultimately show ?thesis using findOneIndex_merge by (simp only: simp_thms)
qed

subsection \<open>Escalation: bookkeeping\<close>

lemma grow_Nil [simp]: "grow [] a = a"
  by (simp add: grow_def)

lemma map_grow_Nil [simp]: "map (grow []) xs = xs"
  by (induction xs) simp_all

lemma grow_grow [simp]: "grow ms (grow ns a) = grow (ns @ ms) a"
  by (simp add: grow_def)

lemma grow_fields [simp]:
  "alertOid (grow ns a) = alertOid a" "severity (grow ns a) = severity a"
  "status (grow ns a) = status a" "createdAt (grow ns a) = createdAt a"
  "notifications (grow ns a) = notifications a @ ns"
  by (simp_all add: grow_def)

lemma enqueuesFor_append [simp]:
  "enqueuesFor t (xs @ ys) = enqueuesFor t xs + enqueuesFor t ys"
  by (simp add: enqueuesFor_def)

lemma enqueuesFor_simps [simp]:
  "enqueuesFor t [] = 0"
  "enqueuesFor t [NotificationQueued i cs] = (if i = t then 1 else 0)"
  "enqueuesFor t [EscalatingAlert i] = 0"
  "enqueuesFor t [ChannelNotification c i] = 0"
  "enqueuesFor t [NotificationSent i] = 0"
  "enqueuesFor t [CheckingEscalations] = 0"
  by (simp_all add: enqueuesFor_def isEnqueueFor_def)

subsection \<open>Escalation: processing the queue\<close>

lemma runChannelHandlers_fields [simp]:
  "alertStore (runChannelHandlers n st) = alertStore st"
  "notificationQueue (runChannelHandlers n st) = notificationQueue st"
proof -
  have "alertStore (fold (\<lambda>channelName s.
             (case map_of (notificationChannels s) channelName of
                Some True \<Rightarrow> s\<lparr>notifierLog := notifierLog s @
                                   [ChannelNotification channelName (qAlertId n)]\<rparr>
              | _ \<Rightarrow> s)) cs st) = alertStore st
      \<and> notificationQueue (fold (\<lambda>channelName s.
             (case map_of (notificationChannels s) channelName of
                Some True \<Rightarrow> s\<lparr>notifierLog := notifierLog s @
                                   [ChannelNotification channelName (qAlertId n)]\<rparr>
              | _ \<Rightarrow> s)) cs st) = notificationQueue st" for cs
    by (induction cs arbitrary: st) (auto split: option.splits bool.splits)
  then show "alertStore (runChannelHandlers n st) = alertStore st"
    "notificationQueue (runChannelHandlers n st) = notificationQueue st"
    by (simp_all add: runChannelHandlers_def)
qed

lemma runChannelHandlers_log [simp]:
  "enqueuesFor t (notifierLog (runChannelHandlers n st)) = enqueuesFor t (notifierLog st)"
proof -
  have "enqueuesFor t (notifierLog (fold (\<lambda>channelName s.
             (case map_of (notificationChannels s) channelName of
                Some True \<Rightarrow> s\<lparr>notifierLog := notifierLog s @
                                   [ChannelNotification channelName (qAlertId n)]\<rparr>
              | _ \<Rightarrow> s)) cs st)) = enqueuesFor t (notifierLog st)" for cs
    by (induction cs arbitrary: st) (auto split: option.splits bool.splits)
  then show ?thesis by (simp add: runChannelHandlers_def)
qed



lemma pendingMethods_log [simp]:
  "pendingMethods t (st\<lparr>notifierLog := x\<rparr>) = pendingMethods t st"
  by (simp add: pendingMethods_def)

lemma entryOf_log [simp]:
  "entryOf t (st\<lparr>notifierLog := x\<rparr>) = entryOf t st"
  by (simp add: entryOf_def)

lemma entryOf_queue [simp]:
  "entryOf t (st\<lparr>notificationQueue := x\<rparr>) = entryOf t st"
  by (simp add: entryOf_def)




subsection \<open>Escalation: enqueueing\<close>







subsection \<open>Escalation: the scan\<close>





















end
